theory Spec2Isabelle
  imports Complex_Main "HOL-Library.Word" "HOL-Library.Log_Nat"
begin

unbundle bit_operations_syntax

section \<open>Audio codec (backend/src/utils/audioCodec.ts)\<close>

text \<open>
  A PCM buffer is modelled through the \<open>Int16Array\<close> view the codec takes of it: a list of
  16-bit words, read as signed numbers with \<open>sint\<close>. A \<open>\<mu>\<close>-law buffer is a list of bytes.
  JavaScript numbers that hold sample values are integers far below \<open>2 ^ 53\<close>, so their
  arithmetic is exact and is modelled on \<open>int\<close>; a value that is \<open>undefined\<close> or \<open>NaN\<close> is
  \<open>None\<close>. Sample rates are finite numbers (\<open>real\<close>); the floating-point arithmetic of the
  generic resampling path is modelled with its rounding, further down.
\<close>

type_synonym pcm = "16 word list"
type_synonym ulaw = "8 word list"

datatype js_error = RangeError | NotConnected | ConnectionError

text \<open>Reading a typed array outside its bounds gives \<open>undefined\<close>.\<close>

definition ta_get :: "pcm \<Rightarrow> int \<Rightarrow> int option" where
  "ta_get xs i = (if 0 \<le> i \<and> i < int (length xs) then Some (sint (xs ! nat i)) else None)"

text \<open>
  Storing into an \<open>Int16Array\<close>: the number wraps to 16 bits, \<open>NaN\<close> is stored as 0, and
  a store outside the bounds (also at a negative index) is ignored.
\<close>

definition to_int16 :: "int option \<Rightarrow> 16 word" where
  "to_int16 v = (case v of None \<Rightarrow> 0 | Some x \<Rightarrow> word_of_int x)"

definition ta_set :: "pcm \<Rightarrow> int \<Rightarrow> int option \<Rightarrow> pcm" where
  "ta_set xs i v = (if 0 \<le> i \<and> i < int (length xs) then xs[nat i := to_int16 v] else xs)"

text \<open>\<open>Math.floor((a + b) / 3)\<close> and the like on numbers that may be \<open>NaN\<close>.\<close>

definition js_add :: "int option \<Rightarrow> int option \<Rightarrow> int option" where
  "js_add a b = (case (a, b) of (Some x, Some y) \<Rightarrow> Some (x + y) | _ \<Rightarrow> None)"

definition js_twice :: "int option \<Rightarrow> int option" where
  "js_twice a = map_option (\<lambda>x. 2 * x) a"

definition js_floor_third :: "int option \<Rightarrow> int option" where
  "js_floor_third a = map_option (\<lambda>x. x div 3) a"

subsection \<open>8000 to 24000: the loop over sample pairs\<close>

function upsample_loop :: "pcm \<Rightarrow> int \<Rightarrow> pcm \<Rightarrow> pcm" where
  "upsample_loop samples i output =
     (if i < int (length samples) - 1 then
        let s1 = ta_get samples i;
            s2 = ta_get samples (i + 1);
            output = ta_set output (i * 3) s1;
            output = ta_set output (i * 3 + 1) (js_floor_third (js_add (js_twice s1) s2));
            output = ta_set output (i * 3 + 2) (js_floor_third (js_add s1 (js_twice s2)))
        in upsample_loop samples (i + 1) output
      else output)"
  by pat_completeness auto
termination
  by (relation "measure (\<lambda>(samples, i, output). nat (int (length samples) - 1 - i))") auto

declare upsample_loop.simps [simp del]

definition upsample3 :: "pcm \<Rightarrow> pcm" where
  "upsample3 samples =
     (let output = replicate (length samples * 3) 0;
          output = upsample_loop samples 0 output;
          lastIdx = int (length samples) - 1;
          output = ta_set output (lastIdx * 3) (ta_get samples lastIdx);
          output = ta_set output (lastIdx * 3 + 1) (ta_get samples lastIdx);
          output = ta_set output (lastIdx * 3 + 2) (ta_get samples lastIdx)
      in output)"

subsection \<open>24000 to 8000: the loop over sample triples\<close>

function downsample_loop :: "pcm \<Rightarrow> int \<Rightarrow> pcm \<Rightarrow> pcm" where
  "downsample_loop samples i output =
     (if i < int (length output) then
        let idx = i * 3;
            avg = js_floor_third
                    (js_add (js_add (ta_get samples idx) (ta_get samples (idx + 1)))
                       (ta_get samples (idx + 2)))
        in downsample_loop samples (i + 1) (ta_set output i avg)
      else output)"
  by pat_completeness auto
termination
  by (relation "measure (\<lambda>(samples, i, output). nat (int (length output) - i))")
    (auto simp: ta_set_def)

declare downsample_loop.simps [simp del]

definition downsample3 :: "pcm \<Rightarrow> pcm" where
  "downsample3 samples = downsample_loop samples 0 (replicate (length samples div 3) 0)"

subsection \<open>Any other pair of rates: linear interpolation\<close>

text \<open>
  The generic path computes with JavaScript numbers, which are IEEE 754 doubles. A number is
  a finite real, an infinity or \<open>NaN\<close>; the sign of a zero is not kept (no result below
  depends on it: a division by a zero rate gives an infinity of either sign, and both lead to
  the same outcome). Every arithmetic operation of the source gives the exact result rounded
  to the nearest double, ties to the even significand (\<open>to_double\<close>): 53 bits of precision,
  the subnormal spacing \<open>2 ^ - 1074\<close> below \<open>2 ^ - 1022\<close>, and an infinity from \<open>2 ^ 1024\<close>
  on. The sample rates and the lengths that enter are taken as the values of the doubles the
  caller passes.
\<close>

datatype js_number = Finite real | PosInfinity | NegInfinity | NaN

text \<open>\<open>pow2 k\<close> is \<open>2\<close> to the power \<open>k\<close>, and \<open>binade x\<close> the exponent of the binade of \<open>x\<close>.\<close>

definition pow2 :: "int \<Rightarrow> real" where
  "pow2 k = (if 0 \<le> k then 2 ^ nat k else 1 / 2 ^ nat (- k))"

definition round_half_even :: "real \<Rightarrow> int" where
  "round_half_even x =
     (let f = \<lfloor>x\<rfloor>; d = x - real_of_int f
      in if d < 1 / 2 then f else if 1 / 2 < d then f + 1 else if even f then f else f + 1)"

definition binade :: "real \<Rightarrow> int" where
  "binade x = \<lfloor>log 2 \<bar>x\<bar>\<rfloor>"

definition to_double :: "real \<Rightarrow> js_number" where
  "to_double x =
     (if x = 0 then Finite 0
      else
        let e = max (binade x) (- 1022);
            ulp = pow2 (e - 52);
            y = real_of_int (round_half_even (x / ulp)) * ulp
        in if pow2 1024 \<le> \<bar>y\<bar> then (if x < 0 then NegInfinity else PosInfinity)
           else Finite y)"

text \<open>\<open>x / y\<close>, \<open>x * y\<close> and \<open>Math.floor\<close> for a finite \<open>x\<close>.\<close>

definition js_divide :: "real \<Rightarrow> js_number \<Rightarrow> js_number" where
  "js_divide x y =
     (case y of
        Finite r \<Rightarrow>
          if r = 0 then (if x = 0 then NaN else if 0 < x then PosInfinity else NegInfinity)
          else to_double (x / r)
      | PosInfinity \<Rightarrow> Finite 0
      | NegInfinity \<Rightarrow> Finite 0
      | NaN \<Rightarrow> NaN)"

definition js_times :: "real \<Rightarrow> js_number \<Rightarrow> js_number" where
  "js_times x y =
     (case y of
        Finite r \<Rightarrow> to_double (x * r)
      | PosInfinity \<Rightarrow> if x = 0 then NaN else if 0 < x then PosInfinity else NegInfinity
      | NegInfinity \<Rightarrow> if x = 0 then NaN else if 0 < x then NegInfinity else PosInfinity
      | NaN \<Rightarrow> NaN)"

definition js_floor :: "js_number \<Rightarrow> js_number" where
  "js_floor v = (case v of Finite r \<Rightarrow> Finite (real_of_int \<lfloor>r\<rfloor>) | _ \<Rightarrow> v)"

text \<open>
  The length that \<open>new Int16Array(v)\<close> takes from a number (\<open>ToIndex\<close>): \<open>NaN\<close> counts as 0,
  and a negative, an infinite or a too large length raises \<open>RangeError\<close>. An engine may
  refuse an allowed length for lack of memory; that is not modelled.
\<close>

definition typed_array_length :: "js_number \<Rightarrow> js_error + nat" where
  "typed_array_length v =
     (case v of
        NaN \<Rightarrow> Inr 0
      | Finite r \<Rightarrow> if r < 0 \<or> 2 ^ 53 - 1 < r then Inl RangeError else Inr (nat \<lfloor>r\<rfloor>)
      | _ \<Rightarrow> Inl RangeError)"

text \<open>
  The body of the loop: output sample \<open>i\<close>. A source sample read outside the frame is
  \<open>undefined\<close>, which makes the result \<open>NaN\<close>, stored as 0.
\<close>

definition interpolate :: "pcm \<Rightarrow> js_number \<Rightarrow> nat \<Rightarrow> 16 word" where
  "interpolate samples ratio i =
     (case js_divide (real i) ratio of
        Finite srcIndex \<Rightarrow>
          let srcIndexFloor = \<lfloor>srcIndex\<rfloor>;
              srcIndexCeil = min (srcIndexFloor + 1) (int (length samples) - 1);
              fraction = to_double (srcIndex - real_of_int srcIndexFloor)
          in (case (ta_get samples srcIndexFloor, ta_get samples srcIndexCeil) of
                (Some sample1, Some sample2) \<Rightarrow>
                  (case js_times (real_of_int (sample2 - sample1)) fraction of
                     Finite p \<Rightarrow>
                       (case to_double (real_of_int sample1 + p) of
                          Finite v \<Rightarrow> to_int16 (Some \<lfloor>v\<rfloor>)
                        | _ \<Rightarrow> to_int16 None)
                   | _ \<Rightarrow> to_int16 None)
              | _ \<Rightarrow> to_int16 None)
      | _ \<Rightarrow> to_int16 None)"

definition resample_generic :: "pcm \<Rightarrow> real \<Rightarrow> real \<Rightarrow> js_error + pcm" where
  "resample_generic samples fromRate toRate =
     (let ratio = js_divide toRate (Finite fromRate);
          outputLength = js_floor (js_times (real (length samples)) ratio)
      in case typed_array_length outputLength of
           Inl e \<Rightarrow> Inl e
         | Inr n \<Rightarrow> Inr (map (interpolate samples ratio) [0..<n]))"

subsection \<open>resample\<close>

text \<open>
  \<open>resample\<close> either hands back the buffer it was given (the same object) or a buffer it
  has allocated; \<open>buffer_of\<close> reads the samples of the result.
\<close>

datatype returned = SameBuffer | NewBuffer pcm

definition resample :: "pcm \<Rightarrow> real \<Rightarrow> real \<Rightarrow> js_error + returned" where
  "resample data fromRate toRate =
     (if fromRate = toRate then Inr SameBuffer
      else if fromRate = 8000 \<and> toRate = 24000 then Inr (NewBuffer (upsample3 data))
      else if fromRate = 24000 \<and> toRate = 8000 then Inr (NewBuffer (downsample3 data))
      else map_sum id NewBuffer (resample_generic data fromRate toRate))"

definition buffer_of :: "pcm \<Rightarrow> returned \<Rightarrow> pcm" where
  "buffer_of data r = (case r of SameBuffer \<Rightarrow> data | NewBuffer ys \<Rightarrow> ys)"

subsection \<open>\<mu>-law companding\<close>

definition BIAS :: int where
  "BIAS = 132"

definition CLIP :: int where
  "CLIP = 32635"

text \<open>
  \<open>generateMuLawTable\<close>: entry \<open>i\<close> of the decoding table. The bit operations of the source
  act on 32-bit integers; every value here stays below \<open>2 ^ 16\<close>, where they agree with the
  operations on \<open>int\<close>.
\<close>

definition mulaw_table_entry :: "nat \<Rightarrow> 16 word" where
  "mulaw_table_entry i =
     (let byte = (NOT (int i)) AND 255;
          sign = byte AND 128;
          exponent = (drop_bit 4 byte) AND 7;
          mantissa = byte AND 15;
          sample = push_bit (nat exponent) (push_bit 3 mantissa + 132);
          sample = sample - BIAS
      in to_int16 (Some (if sign \<noteq> 0 then - sample else sample)))"

definition generateMuLawTable :: "16 word list" where
  "generateMuLawTable = map mulaw_table_entry [0..<256]"

definition MU_LAW_TABLE :: "16 word list" where
  "MU_LAW_TABLE = generateMuLawTable"

text \<open>
  \<open>Math.floor(Math.log2(x))\<close> for an integer \<open>x > 0\<close>, computed on the binary length of
  \<open>x\<close>; \<open>js_floor_log2_eq\<close> below shows that it is the floor of the real logarithm.
\<close>

definition js_floor_log2 :: "int \<Rightarrow> int" where
  "js_floor_log2 x = int (floorlog 2 (nat x)) - 1"

definition encode_sample :: "16 word \<Rightarrow> 8 word" where
  "encode_sample s =
     (let sample = sint s;
          sign = (if sample < 0 then 128 else 0);
          sample = (if sample < 0 then - sample else sample);
          sample = (if sample > CLIP then CLIP else sample);
          sample = sample + BIAS;
          exponent = js_floor_log2 sample - 7;
          mantissa = (drop_bit (nat (exponent + 3)) sample) AND 15
      in word_of_int ((NOT (sign OR (push_bit 4 exponent) OR mantissa)) AND 255))"

definition pcm2ulaw :: "pcm \<Rightarrow> ulaw" where
  "pcm2ulaw data = map encode_sample data"

definition ulaw2pcm :: "ulaw \<Rightarrow> pcm" where
  "ulaw2pcm data = map (\<lambda>b. MU_LAW_TABLE ! unat b) data"

text \<open>
  The quantization step of the codec at a sample: the distance between neighbouring
  decoding levels in the segment (exponent) that the encoder assigns to the sample's clipped
  and biased magnitude, \<open>8 * 2 ^ exponent\<close>.
\<close>

definition ulaw_exponent :: "16 word \<Rightarrow> nat" where
  "ulaw_exponent s = nat (js_floor_log2 (min \<bar>sint s\<bar> CLIP + BIAS) - 7)"

definition quantization_step :: "16 word \<Rightarrow> int" where
  "quantization_step s = 8 * 2 ^ ulaw_exponent s"

subsection \<open>Closed forms of the two fixed-ratio loops\<close>

definition up_val :: "pcm \<Rightarrow> nat \<Rightarrow> 16 word" where
  "up_val samples j =
     (let s1 = sint (samples ! (j div 3)); s2 = sint (samples ! (j div 3 + 1))
      in if j mod 3 = 0 then word_of_int s1
         else if j mod 3 = 1 then word_of_int ((2 * s1 + s2) div 3)
         else word_of_int ((s1 + 2 * s2) div 3))"

definition down_val :: "pcm \<Rightarrow> nat \<Rightarrow> 16 word" where
  "down_val samples j =
     word_of_int ((sint (samples ! (j * 3)) + sint (samples ! (j * 3 + 1))
       + sint (samples ! (j * 3 + 2))) div 3)"

section \<open>Tool registry (services/toolRegistry.ts)\<close>

datatype js_value = JUndefined | JNull | JBool bool | JNum int | JStr string

text \<open>
  \<open>ToolResult\<close>: three optional fields and any further properties, kept in the order in
  which the object literal lists them.
\<close>

record ToolResult =
  success :: "bool option"
  message :: "string option"
  action :: "string option"
  properties :: "(string \<times> js_value) list"

text \<open>
  \<open>executeTool\<close> is an \<open>async\<close> function: an exception in its body would reject the promise
  (\<open>Inl\<close>). Its argument is a record of type \<open>Record<string, any>\<close>; destructuring
  \<open>reason\<close> from a record that lacks it gives \<open>undefined\<close>.
\<close>

definition executeTool :: "string \<Rightarrow> (string \<rightharpoonup> js_value) \<Rightarrow> js_error + ToolResult" where
  "executeTool toolName args =
     (if toolName = ''end_call'' then
        let reason = (case args ''reason'' of None \<Rightarrow> JUndefined | Some v \<Rightarrow> v)
        in Inr \<lparr>success = None, message = Some ''Ending call...'', action = Some ''end_call'',
                properties = [(''reason'', reason)]\<rparr>
      else
        Inr \<lparr>success = None, message = None, action = None,
              properties = [(''error'', JStr (''Unknown tool: '' @ toolName))]\<rparr>)"

section \<open>Call handler (the Twilio media stream handler)\<close>

subsection \<open>Constants and data\<close>

definition MAX_CALL_DURATION :: nat where
  "MAX_CALL_DURATION = 5 * 60 * 1000"

definition SILENCE_TIMEOUT :: nat where
  "SILENCE_TIMEOUT = 15 * 1000"

definition BARGE_IN_THRESHOLD :: real where
  "BARGE_IN_THRESHOLD = 5000"

text \<open>
  \<open>calculateRMS\<close>. The sum of squares is an integer and exact in a double for any frame of
  fewer than \<open>2 ^ 23\<close> samples; the division and the square root are taken in the reals, so
  the model leaves out their rounding.
\<close>

definition sumSquares :: "pcm \<Rightarrow> int" where
  "sumSquares samples = fold (\<lambda>x acc. acc + sint x * sint x) samples 0"

definition calculateRMS :: "pcm \<Rightarrow> real" where
  "calculateRMS samples =
     (if length samples = 0 then 0
      else sqrt (real_of_int (sumSquares samples) / real (length samples)))"

datatype ready_state = CONNECTING | OPEN | CLOSING | CLOSED

datatype track = inbound | outbound

record start_msg =
  start_streamSid :: string
  start_callSid :: string
  customParameters :: "(string \<rightharpoonup> string) option"

text \<open>The payload of a media event is taken after its base64 decoding.\<close>

record media_msg =
  media_track :: track
  payload :: ulaw

record function_call =
  fc_id :: string
  fc_name :: string
  fc_args :: "string \<rightharpoonup> js_value"

record inline_data =
  mimeType :: string
  inline_samples :: pcm

record part =
  part_text :: "string option"
  inlineData :: "inline_data option"

text \<open>
  A response of the AI endpoint, as far as \<open>receiveFromGemini\<close> reads it: the turn-complete
  flag, the tool call (found under the model turn or at the top level) and the parts.
\<close>

record gemini_response =
  turnComplete :: bool
  toolCall :: "function_call list option"
  parts :: "part list option"

record CallSession =
  callSid :: string
  streamSid :: string
  phoneNumber :: string
  voiceId :: string
  conversationLog :: "(string \<times> string \<times> nat) list"
  startTime :: nat
  lastActivityTime :: nat
  isActive :: bool
  aiTurnCount :: nat

text \<open>
  The calls that the handler issues on its two connections, in the order in which it issues
  them. \<open>GeminiIsConnected\<close> is the readiness query with its answer.
\<close>

datatype action_out =
    TwilioSendClear string
  | TwilioSendMedia string ulaw
  | TwilioClose nat string
  | GeminiIsConnected bool
  | GeminiSendAudio pcm
  | GeminiSendMessage string
  | GeminiSendToolResponse string string "bool option" "string option"
  | GeminiClose

text \<open>
  \<open>GeminiClient\<close>: \<open>g_ws\<close> is \<open>None\<close> for \<open>null\<close> and otherwise holds the state of the socket.
  The queue of pending \<open>receive\<close> callbacks is not modelled; responses are handed to the
  receive loop one at a time by \<open>handleResponse\<close>.
\<close>

record gemini_client =
  g_ws :: "ready_state option"
  isSetupComplete :: bool

text \<open>
  The state of one \<open>handleCallWebSocket\<close> closure together with the two module-level
  objects it uses. Timers are kept by the time (in ms) at which they fire: \<open>None\<close> is a
  timer that was never set, was cleared or has fired. \<open>endCallTimers\<close> are the timers whose
  handle no variable keeps, each with the reason it passes to \<open>endCall\<close>. \<open>activeSessions\<close>
  holds the keys of the registry (its values are references to the session objects).
  \<open>caught\<close> lists the errors that a \<open>catch\<close> block has logged.
\<close>

record handler =
  h_phoneNumber :: string
  h_voiceId :: string
  session :: "CallSession option"
  silenceTimer :: "nat option"
  maxDurationTimer :: "nat option"
  endCallTimers :: "(nat \<times> string) list"
  activeSessions :: "string set"
  twilioWs :: ready_state
  geminiClient :: gemini_client
  trace :: "action_out list"
  caught :: "js_error list"

definition emit :: "action_out \<Rightarrow> handler \<Rightarrow> handler" where
  "emit a s = s\<lparr>trace := trace s @ [a]\<rparr>"

subsection \<open>The two sockets\<close>

text \<open>
  \<open>close\<close> of the \<open>ws\<close> library on the telephony socket: an open socket starts closing; on a
  socket that is closing or closed the call changes nothing. \<open>send\<close> is recorded as issued.
\<close>

definition twilio_close :: "nat \<Rightarrow> string \<Rightarrow> handler \<Rightarrow> handler" where
  "twilio_close code reason s =
     (emit (TwilioClose code reason) s)
       \<lparr>twilioWs := (if twilioWs s = OPEN \<or> twilioWs s = CONNECTING then CLOSING else twilioWs s)\<rparr>"

definition isConnected :: "gemini_client \<Rightarrow> bool" where
  "isConnected g = (g_ws g = Some OPEN \<and> isSetupComplete g)"

definition gemini_send :: "action_out \<Rightarrow> handler \<Rightarrow> js_error + handler" where
  "gemini_send a s =
     (if g_ws (geminiClient s) = None \<or> \<not> isSetupComplete (geminiClient s) then Inl NotConnected
      else Inr (emit a s))"

definition gemini_close :: "handler \<Rightarrow> handler" where
  "gemini_close s =
     (if g_ws (geminiClient s) \<noteq> None then
        (emit GeminiClose s)\<lparr>geminiClient := \<lparr>g_ws = None, isSetupComplete = False\<rparr>\<rparr>
      else s)"

subsection \<open>endCall and the timers\<close>

text \<open>
  \<open>endCall\<close>. The logging (of the reason, the duration and the conversation) is left out;
  nothing in the \<open>try\<close> block throws.
\<close>

definition endCall :: "string \<Rightarrow> handler \<Rightarrow> handler" where
  "endCall reason s =
     (case session s of
        None \<Rightarrow> s
      | Some sess \<Rightarrow>
          let s = s\<lparr>session := Some (sess\<lparr>isActive := False\<rparr>)\<rparr>;
              s = s\<lparr>silenceTimer := None\<rparr>;
              s = s\<lparr>maxDurationTimer := None\<rparr>;
              s = gemini_close s;
              s = (if twilioWs s = OPEN then twilio_close 1000 ''Call ended'' s else s)
          in s\<lparr>activeSessions := activeSessions s - {callSid sess}\<rparr>)"

datatype timer = SilenceTimer | MaxDurationTimer | EndCallTimer nat

definition pending :: "handler \<Rightarrow> (nat \<times> timer) list" where
  "pending s =
     (case silenceTimer s of None \<Rightarrow> [] | Some d \<Rightarrow> [(d, SilenceTimer)]) @
     (case maxDurationTimer s of None \<Rightarrow> [] | Some d \<Rightarrow> [(d, MaxDurationTimer)]) @
     map (\<lambda>i. (fst (endCallTimers s ! i), EndCallTimer i)) [0..<length (endCallTimers s)]"

fun earliest :: "(nat \<times> timer) list \<Rightarrow> (nat \<times> timer) option" where
  "earliest [] = None"
| "earliest (x # xs) =
     (case earliest xs of
        None \<Rightarrow> Some x
      | Some y \<Rightarrow> if fst y < fst x then Some y else Some x)"

definition next_due :: "nat \<Rightarrow> handler \<Rightarrow> timer option" where
  "next_due now s = map_option snd (earliest (filter (\<lambda>(d, t). d \<le> now) (pending s)))"

text \<open>The callback of each timer calls \<open>endCall\<close> with the timer's reason.\<close>

definition fire :: "timer \<Rightarrow> handler \<Rightarrow> handler" where
  "fire t s =
     (case t of
        SilenceTimer \<Rightarrow> endCall ''silence_timeout'' (s\<lparr>silenceTimer := None\<rparr>)
      | MaxDurationTimer \<Rightarrow> endCall ''max_duration'' (s\<lparr>maxDurationTimer := None\<rparr>)
      | EndCallTimer i \<Rightarrow>
          endCall (snd (endCallTimers s ! i))
            (s\<lparr>endCallTimers := take i (endCallTimers s) @ drop (Suc i) (endCallTimers s)\<rparr>))"

definition timer_count :: "handler \<Rightarrow> nat" where
  "timer_count s = length (pending s)"

text \<open>
  The event loop at time \<open>now\<close>: every timer that is due fires, the earliest first; of
  two timers due at the same time, \<open>earliest\<close> takes the one that \<open>pending\<close> lists first.
  Every callback is \<open>endCall\<close>, so the order decides only which reason is logged first.
\<close>

function run_timers :: "nat \<Rightarrow> handler \<Rightarrow> handler" where
  "run_timers now s =
     (case next_due now s of
        None \<Rightarrow> s
      | Some t \<Rightarrow> run_timers now (fire t s))"
  by pat_completeness auto
termination
proof (relation "measure (\<lambda>(now, s). timer_count s)")
  show "wf (measure (\<lambda>(now, s). timer_count s))" by simp
next
  fix now :: nat and s :: handler and t :: timer
  assume due: "next_due now s = Some t"
  have mem: "earliest xs = Some x \<Longrightarrow> x \<in> set xs" for xs :: "(nat \<times> timer) list" and x
    by (induction xs arbitrary: x) (auto split: option.splits if_splits)
  have ec: "timer_count (endCall reason s') \<le> timer_count s'" for reason s'
    by (auto simp: timer_count_def pending_def endCall_def gemini_close_def twilio_close_def
        emit_def Let_def split: option.splits)
  from due obtain d where d: "(d, t) \<in> set (pending s)"
    by (auto simp: next_due_def dest!: mem)
  have "timer_count (fire t s) < timer_count s"
  proof (cases t)
    case SilenceTimer
    then have "timer_count (s\<lparr>silenceTimer := None\<rparr>) < timer_count s"
      using d by (cases "silenceTimer s") (auto simp: timer_count_def pending_def split: option.splits)
    then show ?thesis
      using ec [of "''silence_timeout''" "s\<lparr>silenceTimer := None\<rparr>"] SilenceTimer
      by (simp add: fire_def)
  next
    case MaxDurationTimer
    then have "timer_count (s\<lparr>maxDurationTimer := None\<rparr>) < timer_count s"
      using d by (cases "maxDurationTimer s") (auto simp: timer_count_def pending_def split: option.splits)
    then show ?thesis
      using ec [of "''max_duration''" "s\<lparr>maxDurationTimer := None\<rparr>"] MaxDurationTimer
      by (simp add: fire_def)
  next
    case (EndCallTimer i)
    then have i: "i < length (endCallTimers s)"
      using d by (auto simp: pending_def split: option.splits)
    let ?s' = "s\<lparr>endCallTimers := take i (endCallTimers s) @ drop (Suc i) (endCallTimers s)\<rparr>"
    have "timer_count ?s' < timer_count s"
      using i by (simp add: timer_count_def pending_def)
    then show ?thesis
      using ec [of "snd (endCallTimers s ! i)" ?s'] EndCallTimer
      by (simp add: fire_def)
  qed
  then show "((now, fire t s), (now, s)) \<in> measure (\<lambda>(now, s). timer_count s)" by simp
qed

declare run_timers.simps [simp del]

subsection \<open>The telephony events\<close>

definition openingMessage :: string where
  "openingMessage = ''Hi! This is an AI demo calling system. How are you today?''"

text \<open>\<open>customParameters.k || dflt\<close>: a missing or empty parameter gives the default.\<close>

definition param_or :: "(string \<rightharpoonup> string) \<Rightarrow> string \<Rightarrow> string \<Rightarrow> string" where
  "param_or cp k dflt = (case cp k of None \<Rightarrow> dflt | Some v \<Rightarrow> if v = [] then dflt else v)"

text \<open>
  The handshake with the AI endpoint is an action of the environment: it completes the setup
  or it fails and leaves the socket in some state.
\<close>

datatype connect_outcome = SetupComplete | ConnectFailed ready_state

text \<open>
  \<open>handleStart\<close>, at the time \<open>now\<close> at which \<open>connect\<close> returns. A timer whose handle the
  assignment to \<open>maxDurationTimer\<close> overwrites keeps running and joins \<open>endCallTimers\<close>. The
  receive loop that \<open>handleStart\<close> starts is \<open>handleResponse\<close> below.
\<close>

definition handleStart :: "nat \<Rightarrow> start_msg option \<Rightarrow> connect_outcome \<Rightarrow> handler \<Rightarrow> handler" where
  "handleStart now start outcome s =
     (case start of
        None \<Rightarrow> s
      | Some m \<Rightarrow>
          let s = (case customParameters m of
                     None \<Rightarrow> s
                   | Some cp \<Rightarrow>
                       s\<lparr>h_phoneNumber := param_or cp ''phoneNumber'' (h_phoneNumber s),
                         h_voiceId := param_or cp ''voiceId'' (h_voiceId s)\<rparr>)
          in case outcome of
               ConnectFailed st \<Rightarrow>
                 twilio_close 1011 ''Internal error''
                   (s\<lparr>geminiClient := (geminiClient s)\<lparr>g_ws := Some st\<rparr>,
                      caught := caught s @ [ConnectionError]\<rparr>)
             | SetupComplete \<Rightarrow>
                 let s = s\<lparr>geminiClient := \<lparr>g_ws = Some OPEN, isSetupComplete = True\<rparr>\<rparr>;
                     sess = \<lparr>callSid = start_callSid m, streamSid = start_streamSid m,
                             phoneNumber = h_phoneNumber s, voiceId = h_voiceId s,
                             conversationLog = [], startTime = now, lastActivityTime = now,
                             isActive = True, aiTurnCount = 0\<rparr>;
                     s = s\<lparr>session := Some sess\<rparr>;
                     s = s\<lparr>activeSessions := insert (start_callSid m) (activeSessions s)\<rparr>;
                     s = s\<lparr>endCallTimers :=
                            (case maxDurationTimer s of
                               None \<Rightarrow> endCallTimers s
                             | Some d \<Rightarrow> endCallTimers s @ [(d, ''max_duration'')]),
                          maxDurationTimer := Some (now + MAX_CALL_DURATION)\<rparr>
                 in case gemini_send (GeminiSendMessage openingMessage) s of
                      Inl e \<Rightarrow> twilio_close 1011 ''Internal error'' (s\<lparr>caught := caught s @ [e]\<rparr>)
                    | Inr s' \<Rightarrow> s')"

definition handleMedia :: "nat \<Rightarrow> media_msg option \<Rightarrow> handler \<Rightarrow> handler" where
  "handleMedia now media s =
     (case (media, session s) of
        (Some m, Some sess) \<Rightarrow>
          if media_track m \<noteq> inbound then s
          else
            let s = s\<lparr>session := Some (sess\<lparr>lastActivityTime := now\<rparr>)\<rparr>;
                s = s\<lparr>silenceTimer := None\<rparr>;
                s = s\<lparr>silenceTimer := Some (now + SILENCE_TIMEOUT)\<rparr>;
                pcm8k = ulaw2pcm (payload m);
                rms = calculateRMS pcm8k;
                s = (if rms > BARGE_IN_THRESHOLD then emit (TwilioSendClear (streamSid sess)) s
                     else s);
                connected = isConnected (geminiClient s);
                s = emit (GeminiIsConnected connected) s
            in if \<not> connected then s
               else (case resample pcm8k 8000 24000 of
                       Inl e \<Rightarrow> s\<lparr>caught := caught s @ [e]\<rparr>
                     | Inr r \<Rightarrow>
                         (case gemini_send (GeminiSendAudio (buffer_of pcm8k r)) s of
                            Inl e \<Rightarrow> s\<lparr>caught := caught s @ [e]\<rparr>
                          | Inr s' \<Rightarrow> s'))
      | _ \<Rightarrow> s)"

definition handleStop :: "handler \<Rightarrow> handler" where
  "handleStop s = endCall ''completed'' s"

definition cleanup :: "handler \<Rightarrow> handler" where
  "cleanup s =
     (let s = (case session s of
                 None \<Rightarrow> s
               | Some sess \<Rightarrow> if isActive sess then endCall ''disconnected'' s else s)
      in s\<lparr>silenceTimer := None, maxDurationTimer := None\<rparr>)"

subsection \<open>The receive loop\<close>

definition schedule_endCall :: "nat \<Rightarrow> string \<Rightarrow> handler \<Rightarrow> handler" where
  "schedule_endCall t reason s = s\<lparr>endCallTimers := endCallTimers s @ [(t, reason)]\<rparr>"

text \<open>\<open>toLowerCase\<close> on the ASCII letters, and \<open>includes\<close>.\<close>

definition to_lower_char :: "char \<Rightarrow> char" where
  "to_lower_char c =
     (let n = (of_char c :: nat) in if 65 \<le> n \<and> n \<le> 90 then char_of (n + 32) else c)"

definition toLowerCase :: "string \<Rightarrow> string" where
  "toLowerCase t = map to_lower_char t"

fun js_includes :: "string \<Rightarrow> string \<Rightarrow> bool" where
  "js_includes [] p = (p = [])"
| "js_includes (c # cs) p = (take (length p) (c # cs) = p \<or> js_includes cs p)"

definition endCallPhrases :: "string list" where
  "endCallPhrases = [''goodbye'', ''bye'', ''take care'', ''have a great day'']"

definition starts_with :: "string \<Rightarrow> string \<Rightarrow> bool" where
  "starts_with t p = (take (length p) t = p)"

text \<open>
  The steps of one iteration return the state they have reached and, when a step has thrown,
  the error; the \<open>catch\<close> of the loop then ends the call from that state.
\<close>

definition on_turnComplete :: "nat \<Rightarrow> handler \<Rightarrow> handler" where
  "on_turnComplete now s =
     (case session s of
        None \<Rightarrow> s
      | Some sess \<Rightarrow>
          let sess = sess\<lparr>aiTurnCount := aiTurnCount sess + 1\<rparr>;
              s = s\<lparr>session := Some sess\<rparr>
          in if aiTurnCount sess \<ge> 5 then schedule_endCall (now + 2000) ''completed'' s else s)"

fun run_tool_calls :: "nat \<Rightarrow> function_call list \<Rightarrow> handler \<Rightarrow> js_error option \<times> handler" where
  "run_tool_calls now [] s = (None, s)"
| "run_tool_calls now (c # cs) s =
     (case executeTool (fc_name c) (fc_args c) of
        Inl e \<Rightarrow> (Some e, s)
      | Inr result \<Rightarrow>
          let shouldEndCall = (action result = Some ''end_call'')
          in case gemini_send
                    (GeminiSendToolResponse (fc_id c) (fc_name c) (success result) (message result)) s of
               Inl e \<Rightarrow> (Some e, s)
             | Inr s \<Rightarrow>
                 run_tool_calls now cs
                   (if shouldEndCall then schedule_endCall (now + 3000) ''ai_requested'' s else s))"

definition on_audio :: "inline_data \<Rightarrow> handler \<Rightarrow> js_error option \<times> handler" where
  "on_audio d s =
     (case resample (inline_samples d) 24000 8000 of
        Inl e \<Rightarrow> (Some e, s)
      | Inr r \<Rightarrow>
          let pcm8k = buffer_of (inline_samples d) r;
              ulawBuffer = pcm2ulaw pcm8k
          in (None, emit (TwilioSendMedia (case session s of None \<Rightarrow> [] | Some sess \<Rightarrow> streamSid sess)
                            ulawBuffer) s))"

definition on_text :: "nat \<Rightarrow> string \<Rightarrow> handler \<Rightarrow> handler" where
  "on_text now t s =
     (let s = s\<lparr>session := map_option
                  (\<lambda>sess. sess\<lparr>conversationLog := conversationLog sess @ [(''model'', t, now)]\<rparr>)
                  (session s)\<rparr>;
          lowerText = toLowerCase t
      in if list_ex (\<lambda>phrase. js_includes lowerText phrase) endCallPhrases
         then schedule_endCall (now + 2000) ''completed'' s else s)"

fun run_parts :: "nat \<Rightarrow> part list \<Rightarrow> handler \<Rightarrow> js_error option \<times> handler" where
  "run_parts now [] s = (None, s)"
| "run_parts now (p # ps) s =
     (case (case inlineData p of
              None \<Rightarrow> (None, s)
            | Some d \<Rightarrow> if starts_with (mimeType d) ''audio/pcm'' then on_audio d s else (None, s)) of
        (Some e, s) \<Rightarrow> (Some e, s)
      | (None, s) \<Rightarrow>
          run_parts now ps
            (case part_text p of
               None \<Rightarrow> s
             | Some t \<Rightarrow> if t = [] then s else on_text now t s))"

text \<open>
  One iteration of the loop of \<open>receiveFromGemini\<close> on a response that has arrived at time
  \<open>now\<close>. The loop runs only while the session is active.
\<close>

definition handleResponse :: "nat \<Rightarrow> gemini_response \<Rightarrow> handler \<Rightarrow> handler" where
  "handleResponse now r s =
     (case session s of
        None \<Rightarrow> s
      | Some sess \<Rightarrow>
          if \<not> isActive sess then s
          else
            let s = (if turnComplete r then on_turnComplete now s else s)
            in case (case toolCall r of None \<Rightarrow> (None, s) | Some calls \<Rightarrow> run_tool_calls now calls s) of
                 (Some e, s) \<Rightarrow> endCall ''error'' (s\<lparr>caught := caught s @ [e]\<rparr>)
               | (None, s) \<Rightarrow>
                   (case (case parts r of None \<Rightarrow> (None, s) | Some ps \<Rightarrow> run_parts now ps s) of
                      (Some e, s) \<Rightarrow> endCall ''error'' (s\<lparr>caught := caught s @ [e]\<rparr>)
                    | (None, s) \<Rightarrow> s))"

text \<open>
  A handler whose call has ended: the session is inactive and out of the registry, the AI
  link is released and the telephony socket is no longer open.
\<close>

definition ended :: "handler \<Rightarrow> bool" where
  "ended s =
     (case session s of
        None \<Rightarrow> False
      | Some sess \<Rightarrow>
          \<not> isActive sess \<and> callSid sess \<notin> activeSessions s \<and>
          g_ws (geminiClient s) = None \<and> twilioWs s \<noteq> OPEN)"

text \<open>
  Two handler states that differ at most in their timers: the session, the registry, both
  connections, the calls issued on them and the logged errors are the same.
\<close>

definition untouched :: "handler \<Rightarrow> handler \<Rightarrow> bool" where
  "untouched s s' =
     (session s' = session s \<and> activeSessions s' = activeSessions s \<and>
      geminiClient s' = geminiClient s \<and> twilioWs s' = twilioWs s \<and>
      trace s' = trace s \<and> caught s' = caught s)"

text \<open>The close calls among the calls issued on the two connections.\<close>

fun is_close :: "action_out \<Rightarrow> bool" where
  "is_close GeminiClose = True"
| "is_close (TwilioClose code reason) = True"
| "is_close a = False"

text \<open>
  What the steps of the receive loop keep, short of a thrown error: the identity, the active
  flag and the turn count of the session, the registry, both connections, the close calls
  issued so far and the timers already set.
\<close>

definition same_call :: "handler \<Rightarrow> handler \<Rightarrow> bool" where
  "same_call s s' =
     (map_option callSid (session s') = map_option callSid (session s) \<and>
      map_option isActive (session s') = map_option isActive (session s) \<and>
      map_option aiTurnCount (session s') = map_option aiTurnCount (session s) \<and>
      activeSessions s' = activeSessions s \<and> geminiClient s' = geminiClient s \<and>
      twilioWs s' = twilioWs s \<and>
      filter is_close (trace s') = filter is_close (trace s) \<and>
      set (endCallTimers s) \<subseteq> set (endCallTimers s'))"

text \<open>A fresh connection handler, with the socket from telephony open.\<close>

definition initial :: "string \<Rightarrow> string \<Rightarrow> handler" where
  "initial phone voice =
     \<lparr>h_phoneNumber = phone, h_voiceId = voice, session = None, silenceTimer = None,
      maxDurationTimer = None, endCallTimers = [], activeSessions = {}, twilioWs = OPEN,
      geminiClient = \<lparr>g_ws = None, isSetupComplete = False\<rparr>, trace = [], caught = []\<rparr>"

text \<open>
  An example state: a call in progress after \<open>n\<close> completed AI turns, with the silence
  timer set for the time 20000 and the maximum-duration timer for 300000.
\<close>

definition live_call :: "nat \<Rightarrow> handler" where
  "live_call n =
     \<lparr>h_phoneNumber = ''unknown'', h_voiceId = ''Puck'',
      session = Some \<lparr>callSid = ''CA1'', streamSid = ''MZ1'', phoneNumber = ''unknown'',
                      voiceId = ''Puck'', conversationLog = [], startTime = 0,
                      lastActivityTime = 5000, isActive = True, aiTurnCount = n\<rparr>,
      silenceTimer = Some 20000, maxDurationTimer = Some 300000, endCallTimers = [],
      activeSessions = {''CA1''}, twilioWs = OPEN,
      geminiClient = \<lparr>g_ws = Some OPEN, isSetupComplete = True\<rparr>,
      trace = [GeminiSendMessage openingMessage], caught = []\<rparr>"

subsection \<open>Two calls in one process\<close>

text \<open>
  \<open>geminiClient\<close> and \<open>activeSessions\<close> are module-level objects: every connection handler of
  the process uses the same two. With two handlers, an event of one of them runs on that
  handler's state, and the other handler then finds the two shared objects as the event left
  them; the session, the timers, the telephony socket and the trace are each handler's own.
\<close>

definition share :: "handler \<Rightarrow> handler \<Rightarrow> handler" where
  "share h other = other\<lparr>geminiClient := geminiClient h, activeSessions := activeSessions h\<rparr>"

definition in_first :: "(handler \<Rightarrow> handler) \<Rightarrow> handler \<times> handler \<Rightarrow> handler \<times> handler" where
  "in_first event p = (let a = event (fst p) in (a, share a (snd p)))"

definition in_second :: "(handler \<Rightarrow> handler) \<Rightarrow> handler \<times> handler \<Rightarrow> handler \<times> handler" where
  "in_second event p = (let b = event (snd p) in (share b (fst p), b))"

section \<open>Properties of the codec\<close>

lemma length_ta_set [simp]: "length (ta_set xs i v) = length xs"
  by (simp add: ta_set_def)

lemma length_upsample_loop [simp]: "length (upsample_loop samples i out) = length out"
proof (induction samples i out rule: upsample_loop.induct)
  case (1 samples i out)
  show ?case
  proof (cases "i < int (length samples) - 1")
    case True
    then show ?thesis
      using "1.IH" [OF True refl refl refl refl refl]
      by (subst upsample_loop.simps) (simp add: Let_def)
  next
    case False
    then show ?thesis by (subst upsample_loop.simps) simp
  qed
qed

lemma upsample_loop_nth:
  "0 \<le> i \<Longrightarrow> length out = 3 * length samples \<Longrightarrow> j < length out \<Longrightarrow>
   upsample_loop samples i out ! j =
     (if 3 * i \<le> int j \<and> int j < 3 * (int (length samples) - 1) then up_val samples j else out ! j)"
proof (induction samples i out rule: upsample_loop.induct)
  case (1 samples i out)
  show ?case
  proof (cases "i < int (length samples) - 1")
    case True
    define out' where "out' = ta_set (ta_set (ta_set out (i * 3) (ta_get samples i))
       (i * 3 + 1) (js_floor_third (js_add (js_twice (ta_get samples i)) (ta_get samples (i + 1)))))
       (i * 3 + 2) (js_floor_third (js_add (ta_get samples i) (js_twice (ta_get samples (i + 1)))))"
    have step: "upsample_loop samples i out = upsample_loop samples (i + 1) out'"
      using True by (subst upsample_loop.simps) (simp add: Let_def out'_def)
    have len: "length out' = 3 * length samples"
      using "1.prems" by (simp add: out'_def)
    have ih: "upsample_loop samples (i + 1) out' ! j =
       (if 3 * (i + 1) \<le> int j \<and> int j < 3 * (int (length samples) - 1)
        then up_val samples j else out' ! j)"
      using "1.IH" [OF True refl refl refl refl refl _ _ _] "1.prems" len
      by (simp add: out'_def)
    obtain k where k: "i = int k" using "1.prems"(1) by (metis nonneg_int_cases)
    have kn: "k + 1 < length samples" using True k by simp
    have g1: "ta_get samples (int k) = Some (sint (samples ! k))"
      using kn by (simp add: ta_get_def)
    have g2: "ta_get samples (int k + 1) = Some (sint (samples ! (k + 1)))"
      using kn by (simp add: ta_get_def nat_add_distrib)
    have o': "out' = out[k * 3 := word_of_int (sint (samples ! k)),
        k * 3 + 1 := word_of_int ((2 * sint (samples ! k) + sint (samples ! (k + 1))) div 3),
        k * 3 + 2 := word_of_int ((sint (samples ! k) + 2 * sint (samples ! (k + 1))) div 3)]"
      using kn "1.prems"(2)
      by (simp add: out'_def g1 g2 ta_set_def js_add_def js_twice_def js_floor_third_def
          to_int16_def k nat_add_distrib nat_mult_distrib)
    have res: "upsample_loop samples i out ! j =
       (if 3 * (i + 1) \<le> int j \<and> int j < 3 * (int (length samples) - 1)
        then up_val samples j else out' ! j)"
      using step ih by simp
    have d0: "(k * 3) div 3 = k" "(k * 3) mod 3 = 0" by presburger+
    have d1: "(k * 3 + 1) div 3 = k" "(k * 3 + 1) mod 3 = 1" by presburger+
    have d2: "(k * 3 + 2) div 3 = k" "(k * 3 + 2) mod 3 = 2" by presburger+
    consider "j = k * 3" | "j = k * 3 + 1" | "j = k * 3 + 2" | "j < k * 3" | "k * 3 + 3 \<le> j"
      by atomize_elim arith
    then show ?thesis
    proof cases
      case 1
      then show ?thesis
        using res kn "1.prems"(2,3) d0
        by (simp add: o' k up_val_def Let_def)
    next
      case 2
      then show ?thesis
        using res kn "1.prems"(2,3) d1
        by (simp add: o' k up_val_def Let_def)
    next
      case 3
      then show ?thesis
        using res kn "1.prems"(2,3) d2
        by (simp add: o' k up_val_def Let_def)
    next
      case 4
      then show ?thesis
        using res kn "1.prems"(2,3)
        by (simp add: o' k)
    next
      case 5
      then show ?thesis
        using res kn "1.prems"(2,3)
        by (simp add: o' k)
    qed
  next
    case False
    then show ?thesis by (subst upsample_loop.simps) auto
  qed
qed


lemma sint_word_of_sint_bounds:
  fixes a :: "16 word"
  shows "- 32768 \<le> sint a" and "sint a \<le> 32767"
  using sint_ge [of a] sint_lt [of a] by simp_all

lemma sint_store_int16:
  "- 32768 \<le> x \<Longrightarrow> x \<le> 32767 \<Longrightarrow> sint (word_of_int x :: 16 word) = x"
  by (simp add: signed_of_int signed_take_bit_int_eq_self)

lemma upsample3_length [simp]: "length (upsample3 samples) = 3 * length samples"
  by (simp add: upsample3_def Let_def)

lemma upsample3_nth:
  assumes "samples \<noteq> []" and "j < 3 * length samples"
  shows "upsample3 samples ! j =
     (if j < 3 * (length samples - 1) then up_val samples j else samples ! (length samples - 1))"
proof -
  define n where "n = length samples"
  define l where "l = n - 1"
  have n: "n = l + 1" using assms(1) by (simp add: n_def l_def)
  define out1 where "out1 = upsample_loop samples 0 (replicate (length samples * 3) 0)"
  have len1: "length out1 = 3 * n" by (simp add: out1_def n_def)
  have o1: "out1 ! j = (if j < 3 * l then up_val samples j else 0)"
    using assms(2) upsample_loop_nth [of 0 "replicate (length samples * 3) 0" samples j]
    by (auto simp: out1_def n_def [symmetric] n)
  have lenS: "int (length samples) - 1 = int l"
    by (simp add: n_def [symmetric] n)
  have last: "ta_get samples (int l) = Some (sint (samples ! l))"
    by (simp add: ta_get_def n_def [symmetric] n)
  have up: "upsample3 samples =
     out1[l * 3 := samples ! l, l * 3 + 1 := samples ! l, l * 3 + 2 := samples ! l]"
    unfolding upsample3_def Let_def out1_def [symmetric] lenS last
    using len1 by (simp add: n ta_set_def to_int16_def nat_add_distrib nat_mult_distrib)
  consider "j < l * 3" | "j = l * 3" | "j = l * 3 + 1" | "j = l * 3 + 2"
    using assms(2) by (atomize_elim, simp add: n_def [symmetric] n) arith
  then show ?thesis
    using len1 o1 by cases (simp_all add: up n_def [symmetric] n)
qed

lemma length_downsample_loop [simp]: "length (downsample_loop samples i out) = length out"
proof (induction samples i out rule: downsample_loop.induct)
  case (1 samples i out)
  show ?case
  proof (cases "i < int (length out)")
    case True
    then show ?thesis
      using "1.IH" [OF True refl refl]
      by (subst downsample_loop.simps) (simp add: Let_def)
  next
    case False
    then show ?thesis by (subst downsample_loop.simps) simp
  qed
qed

lemma downsample_loop_nth:
  "0 \<le> i \<Longrightarrow> length out = length samples div 3 \<Longrightarrow> j < length out \<Longrightarrow>
   downsample_loop samples i out ! j = (if i \<le> int j then down_val samples j else out ! j)"
proof (induction samples i out rule: downsample_loop.induct)
  case (1 samples i out)
  show ?case
  proof (cases "i < int (length out)")
    case True
    obtain k where k: "i = int k" using "1.prems"(1) by (metis nonneg_int_cases)
    have kn: "k * 3 + 2 < length samples" using True k "1.prems"(2) by simp
    define avg where "avg = js_floor_third
                    (js_add (js_add (ta_get samples (i * 3)) (ta_get samples (i * 3 + 1)))
                       (ta_get samples (i * 3 + 2)))"
    have avg: "to_int16 avg = down_val samples k"
      using kn
      by (simp add: avg_def k ta_get_def js_add_def js_floor_third_def to_int16_def down_val_def
          nat_add_distrib nat_mult_distrib)
    have step: "downsample_loop samples i out = downsample_loop samples (i + 1) (ta_set out i avg)"
      using True by (subst downsample_loop.simps) (simp add: Let_def avg_def)
    have o': "ta_set out i avg = out[k := down_val samples k]"
      using True by (simp add: ta_set_def k avg)
    have ih: "downsample_loop samples (i + 1) (ta_set out i avg) ! j =
       (if i + 1 \<le> int j then down_val samples j else ta_set out i avg ! j)"
      using "1.IH" [OF True refl refl] "1.prems" by (simp add: avg_def)
    have res: "downsample_loop samples i out ! j =
       (if i + 1 \<le> int j then down_val samples j else out[k := down_val samples k] ! j)"
      using step ih o' by simp
    show ?thesis
      using res "1.prems"(3) True
      by (cases "j = k") (auto simp: k)
  next
    case False
    then show ?thesis using "1.prems" by (subst downsample_loop.simps) auto
  qed
qed

lemma downsample3_length [simp]: "length (downsample3 samples) = length samples div 3"
  by (simp add: downsample3_def)

lemma downsample3_nth:
  "j < length samples div 3 \<Longrightarrow> downsample3 samples ! j = down_val samples j"
  using downsample_loop_nth [of 0 "replicate (length samples div 3) 0" samples j]
  by (simp add: downsample3_def)


lemma sint_third_mix:
  fixes a b :: "16 word"
  shows "sint (word_of_int ((2 * sint a + sint b) div 3) :: 16 word) = (2 * sint a + sint b) div 3"
  using sint_word_of_sint_bounds [of a] sint_word_of_sint_bounds [of b]
  by (intro sint_store_int16) linarith+

lemma sint_third_mix':
  fixes a b :: "16 word"
  shows "sint (word_of_int ((sint a + 2 * sint b) div 3) :: 16 word) = (sint a + 2 * sint b) div 3"
  using sint_word_of_sint_bounds [of a] sint_word_of_sint_bounds [of b]
  by (intro sint_store_int16) linarith+

lemma sint_third_sum:
  fixes a b c :: "16 word"
  shows "sint (word_of_int ((sint a + sint b + sint c) div 3) :: 16 word)
     = (sint a + sint b + sint c) div 3"
  using sint_word_of_sint_bounds [of a] sint_word_of_sint_bounds [of b]
    sint_word_of_sint_bounds [of c]
  by (intro sint_store_int16) linarith+

lemma up_val_pair:
  "up_val samples (3 * i) = samples ! i"
  "up_val samples (3 * i + 1) =
     word_of_int ((2 * sint (samples ! i) + sint (samples ! (i + 1))) div 3)"
  "up_val samples (3 * i + 2) =
     word_of_int ((sint (samples ! i) + 2 * sint (samples ! (i + 1))) div 3)"
proof -
  have d: "(3 * i) div 3 = i" "(3 * i) mod 3 = 0" "(3 * i + 1) div 3 = i" "(3 * i + 1) mod 3 = 1"
    "(3 * i + 2) div 3 = i" "(3 * i + 2) mod 3 = 2"
    by presburger+
  show "up_val samples (3 * i) = samples ! i"
    unfolding up_val_def Let_def d by simp
  show "up_val samples (3 * i + 1) =
     word_of_int ((2 * sint (samples ! i) + sint (samples ! (i + 1))) div 3)"
    unfolding up_val_def Let_def d by simp
  show "up_val samples (3 * i + 2) =
     word_of_int ((sint (samples ! i) + 2 * sint (samples ! (i + 1))) div 3)"
    unfolding up_val_def Let_def d by simp
qed

lemma up_val_constant:
  assumes "j div 3 + 1 < n"
  shows "up_val (replicate n c) j = c"
proof -
  have "(2 * sint c + sint c) div 3 = sint c" "(sint c + 2 * sint c) div 3 = sint c"
    by simp_all
  then show ?thesis
    using assms by (simp add: up_val_def Let_def)
qed

lemma upsample3_constant: "upsample3 (replicate n c) = replicate (3 * n) c"
proof (cases "n = 0")
  case True
  then show ?thesis
    by (simp add: upsample3_def Let_def ta_set_def upsample_loop.simps)
next
  case False
  show ?thesis
  proof (rule nth_equalityI)
    show "length (upsample3 (replicate n c)) = length (replicate (3 * n) c)" by simp
  next
    fix j assume "j < length (upsample3 (replicate n c))"
    then have j: "j < 3 * n" by simp
    have ne: "replicate n c \<noteq> []" using False by simp
    have "j < 3 * (n - 1) \<Longrightarrow> j div 3 + 1 < n" by arith
    then show "upsample3 (replicate n c) ! j = replicate (3 * n) c ! j"
      using j False upsample3_nth [OF ne, of j]
      by (auto simp: up_val_constant)
  qed
qed

text \<open>
  Claim C6. For a non-empty frame, resampling from 8000 to 24000 Hz allocates a buffer of
  three output samples per input sample: the pair of input samples \<open>i\<close> and \<open>i + 1\<close>
  gives the outputs \<open>s1\<close>, \<open>floor ((2 * s1 + s2) / 3)\<close> and \<open>floor ((s1 + 2 * s2) / 3)\<close>,
  the last input sample is written three times, and a frame that is constant stays constant.
\<close>

theorem resample_upsample_spec:
  "samples \<noteq> [] \<Longrightarrow>
   resample samples 8000 24000 = Inr (NewBuffer (upsample3 samples)) \<and>
   length (upsample3 samples) = 3 * length samples \<and>
   (\<forall>i. i + 1 < length samples \<longrightarrow>
      sint (upsample3 samples ! (3 * i)) = sint (samples ! i) \<and>
      sint (upsample3 samples ! (3 * i + 1))
        = (2 * sint (samples ! i) + sint (samples ! (i + 1))) div 3 \<and>
      sint (upsample3 samples ! (3 * i + 2))
        = (sint (samples ! i) + 2 * sint (samples ! (i + 1))) div 3) \<and>
   (\<forall>k<3. upsample3 samples ! (3 * (length samples - 1) + k) = last samples) \<and>
   (\<forall>c. samples = replicate (length samples) c \<longrightarrow>
      upsample3 samples = replicate (3 * length samples) c)"
proof (intro conjI allI impI)
  assume ne: "samples \<noteq> []"
  show "resample samples 8000 24000 = Inr (NewBuffer (upsample3 samples))"
    by (simp add: resample_def)
  show "length (upsample3 samples) = 3 * length samples" by simp
  {
    fix i assume i: "i + 1 < length samples"
    then have lt: "3 * i < 3 * (length samples - 1)" "3 * i + 1 < 3 * (length samples - 1)"
      "3 * i + 2 < 3 * (length samples - 1)" "3 * i < 3 * length samples"
      "3 * i + 1 < 3 * length samples" "3 * i + 2 < 3 * length samples"
      by arith+
    show "sint (upsample3 samples ! (3 * i)) = sint (samples ! i)"
      using upsample3_nth [OF ne lt(4)] lt(1) by (simp add: up_val_pair)
    show "sint (upsample3 samples ! (3 * i + 1))
        = (2 * sint (samples ! i) + sint (samples ! (i + 1))) div 3"
      using upsample3_nth [OF ne lt(5)] lt(2) by (simp only: if_True up_val_pair sint_third_mix)
    show "sint (upsample3 samples ! (3 * i + 2))
        = (sint (samples ! i) + 2 * sint (samples ! (i + 1))) div 3"
      using upsample3_nth [OF ne lt(6)] lt(3) by (simp only: if_True up_val_pair sint_third_mix')
  }
  {
    fix k :: nat assume k: "k < 3"
    have "3 * (length samples - 1) + k < 3 * length samples" using ne k
      by (cases samples) simp_all
    from upsample3_nth [OF ne this]
    show "upsample3 samples ! (3 * (length samples - 1) + k) = last samples"
      using ne by (simp add: last_conv_nth)
  }
  {
    fix c assume "samples = replicate (length samples) c"
    then show "upsample3 samples = replicate (3 * length samples) c"
      using upsample3_constant [of "length samples" c] by simp
  }
qed

theorem resample_upsample_spec_witness:
  "[100, 200, - 50 :: 16 word] \<noteq> [] \<and>
   resample [100, 200, - 50] 8000 24000 = Inr (NewBuffer [100, 133, 166, 200, 116, 33, - 50, - 50, - 50])"
proof -
  have ne: "[100, 200, - 50 :: 16 word] \<noteq> []" by simp
  have v: "upsample3 [100, 200, - 50] = [100, 133, 166, 200, 116, 33, - 50, - 50, - 50]"
    by (simp add: upsample3_def upsample_loop.simps ta_get_def ta_set_def to_int16_def
        js_add_def js_twice_def js_floor_third_def Let_def eval_nat_numeral)
  from resample_upsample_spec [OF ne] show ?thesis
    by (simp add: v)
qed


lemma down_val_take:
  "j * 3 + 2 < m \<Longrightarrow> down_val (take m samples) j = down_val samples j"
  by (simp add: down_val_def)

lemma downsample3_drops_remainder:
  "downsample3 samples = downsample3 (take (3 * (length samples div 3)) samples)"
proof (rule nth_equalityI)
  have "min (length samples) (3 * (length samples div 3)) = 3 * (length samples div 3)"
    by simp
  then show "length (downsample3 samples)
      = length (downsample3 (take (3 * (length samples div 3)) samples))"
    by simp
next
  fix j assume "j < length (downsample3 samples)"
  then have j: "j < length samples div 3" by simp
  then have j': "j < length (take (3 * (length samples div 3)) samples) div 3" by simp
  have "j * 3 + 2 < 3 * (length samples div 3)" using j by simp
  then show "downsample3 samples ! j
      = downsample3 (take (3 * (length samples div 3)) samples) ! j"
    using downsample3_nth [OF j] downsample3_nth [OF j'] by (simp add: down_val_take)
qed

text \<open>
  Claim C7. Resampling \<open>n\<close> samples from 24000 to 8000 Hz gives \<open>n div 3\<close> samples; output
  \<open>i\<close> is the floor of the mean of the input samples \<open>3 * i\<close>, \<open>3 * i + 1\<close>, \<open>3 * i + 2\<close>, and
  the samples after the last full triple do not reach the output.
\<close>

theorem resample_downsample_spec:
  "resample samples 24000 8000 = Inr (NewBuffer (downsample3 samples)) \<and>
   length (downsample3 samples) = length samples div 3 \<and>
   (\<forall>i < length samples div 3.
      sint (downsample3 samples ! i)
        = (sint (samples ! (3 * i)) + sint (samples ! (3 * i + 1))
            + sint (samples ! (3 * i + 2))) div 3) \<and>
   downsample3 samples = downsample3 (take (3 * (length samples div 3)) samples)"
proof (intro conjI allI impI)
  show "resample samples 24000 8000 = Inr (NewBuffer (downsample3 samples))"
    by (simp add: resample_def)
  show "length (downsample3 samples) = length samples div 3" by simp
  show "downsample3 samples = downsample3 (take (3 * (length samples div 3)) samples)"
    by (rule downsample3_drops_remainder)
next
  fix i assume "i < length samples div 3"
  then show "sint (downsample3 samples ! i)
        = (sint (samples ! (3 * i)) + sint (samples ! (3 * i + 1))
            + sint (samples ! (3 * i + 2))) div 3"
    by (simp add: downsample3_nth down_val_def sint_third_sum mult.commute)
qed

theorem resample_downsample_spec_witness:
  "(1::nat) < length [10, 20, 31, - 4, - 5, - 5, 7, 8 :: 16 word] div 3 \<and>
   resample [10, 20, 31, - 4, - 5, - 5, 7, 8] 24000 8000 = Inr (NewBuffer [20, - 5]) \<and>
   sint (downsample3 [10, 20, 31, - 4, - 5, - 5, 7, 8] ! 1) = - 5"
proof -
  let ?xs = "[10, 20, 31, - 4, - 5, - 5, 7, 8 :: 16 word]"
  have b: "(1::nat) < length ?xs div 3" by simp
  have v: "downsample3 ?xs = [20, - 5]" by code_simp
  note t = resample_downsample_spec [of ?xs]
  from t have "\<forall>i < length ?xs div 3. sint (downsample3 ?xs ! i)
        = (sint (?xs ! (3 * i)) + sint (?xs ! (3 * i + 1)) + sint (?xs ! (3 * i + 2))) div 3"
    by blast
  from this [rule_format, OF b] have "sint (downsample3 ?xs ! 1) = - 5" by simp
  moreover from t have "resample ?xs 24000 8000 = Inr (NewBuffer [20, - 5])"
    by (simp only: v)
  ultimately show ?thesis using b by blast
qed

text \<open>
  Claim C8. With equal rates \<open>resample\<close> returns the buffer it was given, the same object
  and so the same samples, whatever the frame and the rate.
\<close>

theorem resample_same_rate_identity:
  "resample x r r = Inr SameBuffer \<and> buffer_of x SameBuffer = x"
  by (simp add: resample_def buffer_of_def)

lemma upsample3_empty: "upsample3 [] = []"
  by (simp add: upsample3_def Let_def upsample_loop.simps ta_set_def)

lemma downsample3_empty: "downsample3 [] = []"
  by (simp add: downsample3_def downsample_loop.simps)

lemma to_double_zero [simp]: "to_double 0 = Finite 0"
  by (simp add: to_double_def)

lemma resample_generic_empty: "resample_generic [] fromRate toRate = Inr []"
proof -
  have "typed_array_length (js_floor (js_times 0 r)) = Inr 0" for r
    by (cases r) (simp_all add: js_times_def js_floor_def typed_array_length_def)
  then show ?thesis by (simp add: resample_generic_def)
qed

text \<open>
  Claim C10. Resampling the empty frame succeeds with an empty frame for every pair of
  rates. On the 8000 to 24000 path the loop does not run and the three boundary stores, at
  the indices -3, -2 and -1 with the value \<open>undefined\<close>, are ignored; the generic path
  computes the output length 0 and interpolates nothing.
\<close>

theorem resample_empty_frame:
  "(\<exists>r. resample [] fromRate toRate = Inr r \<and> buffer_of [] r = []) \<and>
   resample [] 8000 24000 = Inr (NewBuffer []) \<and>
   upsample_loop [] 0 [] = [] \<and>
   ta_set [] (- 3) (ta_get [] (- 1)) = [] \<and>
   resample_generic [] fromRate toRate = Inr []"
  by (simp add: resample_def buffer_of_def upsample3_empty downsample3_empty
      resample_generic_empty upsample_loop.simps ta_set_def)


subsection \<open>Rounding on the generic path\<close>

lemma pow2_powr: "pow2 k = 2 powr (real_of_int k)"
proof (cases "0 \<le> k")
  case True
  then show ?thesis by (simp add: pow2_def powr_realpow [symmetric])
next
  case False
  then have "2 powr (real_of_int k) = 1 / 2 powr (real_of_int (- k))"
    by (simp add: powr_minus_divide)
  also have "\<dots> = 1 / 2 ^ nat (- k)" using False by (simp add: powr_realpow [symmetric])
  finally show ?thesis using False by (simp add: pow2_def)
qed

lemma binade_eq:
  assumes "pow2 e \<le> \<bar>x\<bar>" and "\<bar>x\<bar> < pow2 (e + 1)"
  shows "binade x = e"
proof -
  have "0 < pow2 e" by (simp add: pow2_powr)
  then have pos: "0 < \<bar>x\<bar>" using assms(1) by linarith
  have "2 powr (real_of_int e) \<le> \<bar>x\<bar> \<and> \<bar>x\<bar> < 2 powr (real_of_int (e + 1))"
    using assms by (simp add: pow2_powr)
  then show ?thesis
    unfolding binade_def using floor_log_eq_powr_iff [OF pos, of 2 e] by simp
qed

lemma to_double_eval:
  assumes "pow2 e \<le> \<bar>x\<bar>" and "\<bar>x\<bar> < pow2 (e + 1)" and "- 1022 \<le> e"
    and "round_half_even (x / pow2 (e - 52)) = m"
    and "\<bar>real_of_int m * pow2 (e - 52)\<bar> < pow2 1024"
  shows "to_double x = Finite (real_of_int m * pow2 (e - 52))"
proof -
  have b: "binade x = e" using assms(1,2) by (rule binade_eq)
  have "0 < pow2 e" by (simp add: pow2_powr)
  then have nz: "x \<noteq> 0" using assms(1) by auto
  have mx: "max e (- 1022) = e" using assms(3) by simp
  show ?thesis
    unfolding to_double_def Let_def b mx assms(4) using nz assms(5) by simp
qed

text \<open>
  The generic path on a frame that is not empty: from 8000 to 44100 Hz, output sample 3 of
  the frame \<open>[0, 147]\<close> is 79, as the doubles give it (\<open>3 / 5.5125 * 147\<close> rounds to
  \<open>79.99999999999999\<close>); in exact arithmetic it would be 80.
\<close>

lemma generic_path_rounds:
  "\<exists>ys. resample_generic [0, 147] 8000 44100 = Inr ys \<and> length ys = 11 \<and> ys ! 3 = 79"
proof -
  define ratio :: real where "ratio = 6206523236469965 / 2 ^ 50"
  define src :: real where "src = 4901877145437274 / 2 ^ 53"
  define p :: real where "p = 5629499534213119 / 2 ^ 46"
  have r: "to_double (44100 / 8000) = Finite ratio"
    using to_double_eval [where x = "44100 / 8000" and e = 2 and m = 6206523236469965]
    by (simp add: pow2_def round_half_even_def Let_def ratio_def)
  have l: "to_double (2 * ratio) = Finite (2 * ratio)"
    using to_double_eval [where x = "2 * ratio" and e = 3 and m = 6206523236469965]
    by (simp add: pow2_def round_half_even_def Let_def ratio_def)
  have s: "to_double (3 / ratio) = Finite src"
    using to_double_eval [where x = "3 / ratio" and e = "- 1" and m = 4901877145437274]
    by (simp add: pow2_def round_half_even_def Let_def ratio_def src_def)
  have f: "to_double src = Finite src"
    using to_double_eval [where x = src and e = "- 1" and m = 4901877145437274]
    by (simp add: pow2_def round_half_even_def Let_def src_def)
  have m: "to_double (147 * src) = Finite p"
    using to_double_eval [where x = "147 * src" and e = 6 and m = 5629499534213119]
    by (simp add: pow2_def round_half_even_def Let_def src_def p_def)
  have a: "to_double p = Finite p"
    using to_double_eval [where x = p and e = 6 and m = 5629499534213119]
    by (simp add: pow2_def round_half_even_def Let_def p_def)
  have fl: "\<lfloor>2 * ratio\<rfloor> = 11" "\<lfloor>src\<rfloor> = 0" "\<lfloor>p\<rfloor> = 79" "ratio \<noteq> 0"
    by (simp_all add: ratio_def src_def p_def)
  have len: "typed_array_length (js_floor (js_times (real (length [0, 147 :: 16 word]))
      (js_divide 44100 (Finite 8000)))) = Inr 11"
    using r l fl by (simp add: js_divide_def js_times_def js_floor_def typed_array_length_def)
  have i3: "interpolate [0, 147] (Finite ratio) 3 = 79"
    using s f m a fl
    by (simp add: interpolate_def js_divide_def js_times_def ta_get_def to_int16_def Let_def)
  have "resample_generic [0, 147] 8000 44100 = Inr (map (interpolate [0, 147] (Finite ratio)) [0..<11])"
    unfolding resample_generic_def Let_def len using r by (simp add: js_divide_def)
  then show ?thesis by (simp add: i3)
qed

section \<open>Properties of the \<mu>-law codec\<close>

lemma js_floor_log2_eq: "0 < x \<Longrightarrow> js_floor_log2 x = \<lfloor>log 2 (real_of_int x)\<rfloor>"
proof -
  assume x: "0 < x"
  then have "1 \<le> real_of_int x" by simp
  then have "0 \<le> log 2 (real_of_int x)" by simp
  then have "0 \<le> \<lfloor>log 2 (real_of_int x)\<rfloor>" by simp
  moreover have "real (nat x) = real_of_int x" using x by simp
  ultimately show ?thesis
    using x by (simp add: js_floor_log2_def floorlog_def)
qed

lemma table_nth: "k < 256 \<Longrightarrow> MU_LAW_TABLE ! k = mulaw_table_entry k"
  by (simp add: MU_LAW_TABLE_def generateMuLawTable_def)

lemma decode_enum:
  "\<forall>sign \<in> set [0, 128]. \<forall>e \<in> set [0..<8]. \<forall>mant \<in> set [0..<16].
     mulaw_table_entry (unat (word_of_int (NOT (sign OR push_bit 4 (int e) OR int mant) AND 255) :: 8 word))
     = word_of_int ((if sign = 0 then 1 else - 1) * ((8 * int mant + 132) * 2 ^ e - 132))"
  by code_simp


lemma biased_range:
  fixes s :: "16 word"
  shows "132 \<le> min \<bar>sint s\<bar> CLIP + BIAS" and "min \<bar>sint s\<bar> CLIP + BIAS \<le> 32767"
  by (simp_all add: CLIP_def BIAS_def)

lemma int_div_lower: "0 < (d::int) \<Longrightarrow> 16 * d \<le> b \<Longrightarrow> 16 \<le> b div d"
  using zdiv_mono1 [of "16 * d" b d] by simp

lemma int_div_upper:
  assumes "0 < (d::int)" and "b < 32 * d"
  shows "b div d < 32"
proof (rule ccontr)
  assume "\<not> b div d < 32"
  then have "32 \<le> b div d" by simp
  then have "32 * d \<le> (b div d) * d" using assms(1) by (intro mult_right_mono) simp_all
  moreover have "(b div d) * d = b - b mod d" by (simp add: minus_mod_eq_div_mult)
  moreover have "0 \<le> b mod d" using assms(1) by simp
  ultimately show False using assms(2) by linarith
qed

lemma and_15: "(x::int) AND 15 = x mod 16"
  using take_bit_eq_mask [of 4 x] by (simp add: take_bit_eq_mod mask_eq_exp_minus_1)

lemma segment_bounds:
  assumes "132 \<le> b" and "b \<le> 32767"
  defines "e \<equiv> nat (js_floor_log2 b - 7)"
  shows "js_floor_log2 b - 7 = int e" and "e < 8"
    and "2 ^ (e + 7) \<le> b" and "b < 2 ^ (e + 8)"
proof -
  define L where "L = floorlog 2 (nat b)"
  have pos: "0 < nat b" using assms(1) by simp
  have nb: "128 \<le> nat b" "nat b < 32768" using assms(1,2) by linarith+
  from floorlog_bounds [OF pos, of 2]
  have lo: "(2::nat) ^ (L - 1) \<le> nat b" and hi: "nat b < (2::nat) ^ L"
    by (simp_all add: L_def)
  have "(128::nat) < 2 ^ L" using hi nb(1) by linarith
  then have "(2::nat) ^ 7 < 2 ^ L" by simp
  then have "7 < L" by (rule power_less_imp_less_exp [rotated]) simp
  then have L8: "8 \<le> L" by simp
  have "(2::nat) ^ (L - 1) < 32768" using lo nb(2) by linarith
  then have "(2::nat) ^ (L - 1) < 2 ^ 15" by simp
  then have "L - 1 < 15" by (rule power_less_imp_less_exp [rotated]) simp
  then have L15: "L \<le> 15" by simp
  have e: "e = L - 8" by (simp add: e_def js_floor_log2_def L_def)
  show "js_floor_log2 b - 7 = int e" using L8 by (simp add: e js_floor_log2_def L_def)
  show "e < 8" using L8 L15 by (simp add: e)
  have eq1: "L - 1 = e + 7" and eq2: "L = e + 8" using L8 by (simp_all add: e)
  have "int (2 ^ (e + 7)) \<le> int (nat b)"
    using lo [unfolded eq1] by (simp only: of_nat_le_iff)
  then show "2 ^ (e + 7) \<le> b" using assms(1) by simp
  have "int (nat b) < int (2 ^ (e + 8))"
    using hi [unfolded eq2] by (simp only: of_nat_less_iff)
  then show "b < 2 ^ (e + 8)" using assms(1) by simp
qed

lemma mantissa_bits:
  assumes "2 ^ (e + 7) \<le> (b::int)" and "b < 2 ^ (e + 8)"
  shows "drop_bit (e + 3) b AND 15 = b div 2 ^ (e + 3) - 16"
    and "16 \<le> b div 2 ^ (e + 3)" and "b div 2 ^ (e + 3) < 32"
proof -
  have p: "(2::int) ^ (e + 7) = 16 * 2 ^ (e + 3)" "(2::int) ^ (e + 8) = 32 * 2 ^ (e + 3)"
    by (simp_all add: power_add)
  have pos: "(0::int) < 2 ^ (e + 3)" by simp
  show lo: "16 \<le> b div 2 ^ (e + 3)"
    using assms(1) unfolding p by (rule int_div_lower [OF pos])
  show hi: "b div 2 ^ (e + 3) < 32"
    using assms(2) unfolding p by (rule int_div_upper [OF pos])
  have "(b div 2 ^ (e + 3)) mod 16 = (b div 2 ^ (e + 3) - 16) mod 16"
    using minus_mod_self2 [of "b div 2 ^ (e + 3)" 16] by simp
  also have "\<dots> = b div 2 ^ (e + 3) - 16"
    using lo hi by (intro mod_pos_pos_trivial) simp_all
  finally show "drop_bit (e + 3) b AND 15 = b div 2 ^ (e + 3) - 16"
    by (simp add: and_15 drop_bit_eq_div)
qed

lemma decoded_level:
  fixes s :: "16 word"
  defines "b \<equiv> min \<bar>sint s\<bar> CLIP + BIAS"
  defines "e \<equiv> ulaw_exponent s"
  shows "sint (MU_LAW_TABLE ! unat (encode_sample s))
     = (if sint s < 0 then - 1 else 1) * (b - b mod (8 * 2 ^ e) + 4 * 2 ^ e - 132)"
proof -
  have br: "132 \<le> b" "b \<le> 32767" using biased_range [of s] by (simp_all add: b_def)
  have e_def': "e = nat (js_floor_log2 b - 7)" by (simp add: e_def ulaw_exponent_def b_def)
  note sb = segment_bounds [OF br, folded e_def']
  note mb = mantissa_bits [OF sb(3,4)]
  define q where "q = b div 2 ^ (e + 3)"
  define mant where "mant = nat (q - 16)"
  define sign :: int where "sign = (if sint s < 0 then 128 else 0)"
  have mant: "int mant = q - 16" "mant < 16" using mb(2,3) by (simp_all add: mant_def q_def)
  have bb: "(if (if sint s < 0 then - sint s else sint s) > CLIP then CLIP
             else (if sint s < 0 then - sint s else sint s)) + BIAS = b"
    by (simp add: b_def min_def abs_if)
  have enc: "encode_sample s
      = word_of_int (NOT (sign OR push_bit 4 (int e) OR int mant) AND 255)"
    unfolding encode_sample_def Let_def bb sb(1)
    by (simp add: nat_add_distrib mb(1) mant q_def sign_def)
  have mem: "sign \<in> set [0, 128]" "e \<in> set [0..<8]" "mant \<in> set [0..<16]"
    using sb(2) mant(2) by (simp_all add: sign_def)
  have idx: "unat (encode_sample s) < 256"
    using unsigned_less [of "encode_sample s", where 'a = nat] by simp
  have "MU_LAW_TABLE ! unat (encode_sample s) = mulaw_table_entry (unat (encode_sample s))"
    by (rule table_nth [OF idx])
  also have "\<dots> = word_of_int ((if sign = 0 then 1 else - 1) * ((8 * int mant + 132) * 2 ^ e - 132))"
    unfolding enc using decode_enum mem by blast
  finally have dec: "MU_LAW_TABLE ! unat (encode_sample s)
      = word_of_int ((if sign = 0 then 1 else - 1) * ((8 * int mant + 132) * 2 ^ e - 132))" .
  have lvl: "(8 * int mant + 132) * 2 ^ e - 132 = b - b mod (8 * 2 ^ e) + 4 * 2 ^ e - 132"
  proof -
    have "(8 * int mant + 132) * 2 ^ e = q * (8 * 2 ^ e) + 4 * 2 ^ e"
      by (simp add: mant(1) algebra_simps)
    moreover have "q * (8 * 2 ^ e) = b - b mod (8 * 2 ^ e)"
      by (simp add: q_def power_add minus_mod_eq_div_mult mult.commute)
    ultimately show ?thesis by simp
  qed
  have pe: "(1::int) \<le> 2 ^ e" "(2::int) ^ e \<le> 128"
    using sb(2) power_increasing [of e 7 "2::int"] by simp_all
  have rng: "0 \<le> (8 * int mant + 132) * 2 ^ e - 132" "(8 * int mant + 132) * 2 ^ e - 132 \<le> 32767"
  proof -
    have "132 * 1 \<le> (8 * int mant + 132) * 2 ^ e"
      using pe(1) by (intro mult_mono) simp_all
    then show "0 \<le> (8 * int mant + 132) * 2 ^ e - 132" by simp
    have "(8 * int mant + 132) * 2 ^ e \<le> 252 * 128"
      using pe(2) mant(2) by (intro mult_mono) simp_all
    then show "(8 * int mant + 132) * 2 ^ e - 132 \<le> 32767" by simp
  qed
  have "sint (MU_LAW_TABLE ! unat (encode_sample s))
      = (if sign = 0 then 1 else - 1) * ((8 * int mant + 132) * 2 ^ e - 132)"
    unfolding dec using rng by (intro sint_store_int16) (simp_all split: if_splits)
  then show ?thesis
    by (simp add: lvl sign_def)
qed

lemma roundtrip_sample:
  "\<bar>sint (MU_LAW_TABLE ! unat (encode_sample s)) - sint s\<bar> \<le> quantization_step s"
proof -
  define x where "x = sint s"
  define b where "b = min \<bar>x\<bar> CLIP + BIAS"
  define e where "e = ulaw_exponent s"
  define P :: int where "P = 4 * 2 ^ e"
  define r where "r = b mod (2 * P)"
  have P: "0 < P" by (simp add: P_def)
  have r: "0 \<le> r" "r < 2 * P" using P by (simp_all add: r_def)
  have qs: "quantization_step s = 2 * P" by (simp add: quantization_step_def e_def P_def)
  have dec: "sint (MU_LAW_TABLE ! unat (encode_sample s))
      = (if x < 0 then - 1 else 1) * (b - r + P - 132)"
    using decoded_level [of s] by (simp add: x_def b_def e_def r_def P_def)
  show ?thesis
  proof (cases "\<bar>x\<bar> \<le> CLIP")
    case True
    then have "b = \<bar>x\<bar> + 132" by (simp add: b_def BIAS_def)
    then have "\<bar>(if x < 0 then - 1 else 1) * (b - r + P - 132) - x\<bar> = \<bar>P - r\<bar>"
      by (simp add: abs_minus_commute split: if_splits)
    moreover have "\<bar>P - r\<bar> \<le> 2 * P" using r P by linarith
    ultimately show ?thesis
      unfolding dec qs x_def [symmetric] by simp
  next
    case False
    then have b: "b = 32767" by (simp add: b_def BIAS_def CLIP_def)
    have e_def': "e = nat (js_floor_log2 b - 7)"
      by (simp add: e_def ulaw_exponent_def b_def x_def)
    have "132 \<le> b" "b \<le> 32767" by (simp_all add: b)
    note sb = segment_bounds [OF this, folded e_def']
    have "e = 7"
    proof (rule ccontr)
      assume "e \<noteq> 7"
      then have "e + 8 \<le> 14" using sb(2) by simp
      then have "(2::int) ^ (e + 8) \<le> 2 ^ 14" by (intro power_increasing) simp_all
      then show False using sb(4) b by simp
    qed
    then have Pv: "P = 512" and rv: "r = 1023" by (simp_all add: P_def r_def b)
    have xr: "- 32768 \<le> x" "x \<le> 32767" using sint_word_of_sint_bounds [of s] by (simp_all add: x_def)
    show ?thesis
      using False xr unfolding dec qs x_def [symmetric] Pv rv b
      by (simp add: CLIP_def split: if_splits)
  qed
qed

lemma roundtrip_not_exact: "ulaw2pcm (pcm2ulaw [1]) = [0]"
proof -
  have "encode_sample 1 = 255" by code_simp
  moreover have "mulaw_table_entry 255 = 0" by code_simp
  ultimately show ?thesis by (simp add: ulaw2pcm_def pcm2ulaw_def table_nth)
qed

text \<open>
  Claim C3. Encoding a frame to \<open>\<mu>\<close>-law and decoding it again keeps the length of the frame,
  and every decoded sample is within one quantization step (at the magnitude of the original
  sample) of the original; the round trip is not the identity.
\<close>

theorem ulaw_roundtrip_bounded:
  "length (ulaw2pcm (pcm2ulaw frame)) = length frame \<and>
   (\<forall>i < length frame.
      \<bar>sint (ulaw2pcm (pcm2ulaw frame) ! i) - sint (frame ! i)\<bar> \<le> quantization_step (frame ! i)) \<and>
   ulaw2pcm (pcm2ulaw [1]) \<noteq> [1]"
proof (intro conjI allI impI)
  show "length (ulaw2pcm (pcm2ulaw frame)) = length frame"
    by (simp add: ulaw2pcm_def pcm2ulaw_def)
  show "ulaw2pcm (pcm2ulaw [1]) \<noteq> [1]"
    by (simp add: roundtrip_not_exact)
next
  fix i assume "i < length frame"
  then show "\<bar>sint (ulaw2pcm (pcm2ulaw frame) ! i) - sint (frame ! i)\<bar>
      \<le> quantization_step (frame ! i)"
    by (simp add: ulaw2pcm_def pcm2ulaw_def roundtrip_sample)
qed

theorem ulaw_roundtrip_bounded_witness:
  "(1::nat) < length [1000, - 32768, 7 :: 16 word] \<and>
   ulaw2pcm (pcm2ulaw [1000, - 32768, 7]) = [988, - 32124, 8] \<and>
   \<bar>sint (ulaw2pcm (pcm2ulaw [1000, - 32768, 7]) ! 1) - sint (- 32768 :: 16 word)\<bar> \<le> 1024"
proof -
  let ?xs = "[1000, - 32768, 7 :: 16 word]"
  have b: "(1::nat) < length ?xs" by simp
  have l: "js_floor_log2 32767 = 14" "js_floor_log2 1132 = 10" "js_floor_log2 139 = 7"
    by (simp_all add: js_floor_log2_def compute_floorlog)
  have q: "quantization_step (- 32768) = 1024"
    by (simp add: quantization_step_def ulaw_exponent_def l CLIP_def BIAS_def)
  have enc: "pcm2ulaw ?xs = [206, 0, 254]"
    by (simp add: pcm2ulaw_def encode_sample_def l CLIP_def BIAS_def Let_def)
  have dec: "ulaw2pcm [206, 0, 254] = [988, - 32124, 8]"
    by (simp add: ulaw2pcm_def table_nth mulaw_table_entry_def to_int16_def BIAS_def Let_def)
  have v: "ulaw2pcm (pcm2ulaw ?xs) = [988, - 32124, 8]"
    by (simp only: enc dec)
  from ulaw_roundtrip_bounded [of ?xs]
  have "\<forall>i < length ?xs.
      \<bar>sint (ulaw2pcm (pcm2ulaw ?xs) ! i) - sint (?xs ! i)\<bar> \<le> quantization_step (?xs ! i)"
    by blast
  from this [rule_format, OF b]
  have "\<bar>sint (ulaw2pcm (pcm2ulaw ?xs) ! 1) - sint (- 32768 :: 16 word)\<bar> \<le> 1024"
    by (simp add: q)
  with b v show ?thesis by blast
qed

section \<open>Properties of the tool registry\<close>

text \<open>
  Claim C9. \<open>executeTool\<close> returns a result for every tool name and argument record and never
  throws: for the name \<open>end_call\<close> the result carries the action tag \<open>end_call\<close> and the
  confirmation message, and for any other name it is the record whose only property is the
  error \<open>Unknown tool: \<close> followed by the name.
\<close>

theorem executeTool_never_throws:
  "(\<exists>r. executeTool toolName args = Inr r) \<and>
   (\<exists>r. executeTool ''end_call'' args = Inr r \<and> action r = Some ''end_call'' \<and>
        message r = Some ''Ending call...'') \<and>
   (toolName \<noteq> ''end_call'' \<longrightarrow>
      executeTool toolName args =
        Inr \<lparr>success = None, message = None, action = None,
             properties = [(''error'', JStr (''Unknown tool: '' @ toolName))]\<rparr>)"
  by (simp add: executeTool_def)

theorem executeTool_never_throws_witness:
  "''get_weather'' \<noteq> ''end_call'' \<and>
   executeTool ''get_weather'' Map.empty =
     Inr \<lparr>success = None, message = None, action = None,
          properties = [(''error'', JStr ''Unknown tool: get_weather'')]\<rparr>"
proof -
  have ne: "''get_weather'' \<noteq> ''end_call''" by simp
  from executeTool_never_throws [of "''get_weather''" Map.empty]
  have "''get_weather'' \<noteq> ''end_call'' \<longrightarrow>
      executeTool ''get_weather'' Map.empty =
        Inr \<lparr>success = None, message = None, action = None,
             properties = [(''error'', JStr (''Unknown tool: '' @ ''get_weather''))]\<rparr>"
    by blast
  with ne show ?thesis by simp
qed

section \<open>Properties of the call handler\<close>

subsection \<open>Ending a call\<close>

lemma ended_endCall: "session s \<noteq> None \<Longrightarrow> ended (endCall reason s)"
  by (auto simp: ended_def endCall_def gemini_close_def twilio_close_def emit_def Let_def
      split: option.splits)

lemma endCall_ended:
  assumes "ended s"
  shows "endCall reason s = s\<lparr>silenceTimer := None, maxDurationTimer := None\<rparr>"
proof -
  from assms obtain sess where sess: "session s = Some sess" and na: "\<not> isActive sess"
    and reg: "callSid sess \<notin> activeSessions s" and g: "g_ws (geminiClient s) = None"
    and tw: "twilioWs s \<noteq> OPEN"
    by (auto simp: ended_def split: option.splits)
  have 1: "sess\<lparr>isActive := False\<rparr> = sess" using na by (cases sess) simp
  have 2: "activeSessions s - {callSid sess} = activeSessions s" using reg by simp
  have 3: "s\<lparr>session := Some sess\<rparr> = s" using sess by (cases s) simp
  show ?thesis
    using g tw 3 by (simp add: endCall_def sess gemini_close_def Let_def 1 2)
qed

lemma endCall_idem: "endCall r2 (endCall r1 s) = endCall r1 s"
proof (cases "session s")
  case None
  then show ?thesis by (simp add: endCall_def)
next
  case (Some sess)
  then have "ended (endCall r1 s)" by (simp add: ended_endCall)
  then have "endCall r2 (endCall r1 s)
      = (endCall r1 s)\<lparr>silenceTimer := None, maxDurationTimer := None\<rparr>"
    by (rule endCall_ended)
  also have "\<dots> = endCall r1 s"
    using Some
    by (simp add: endCall_def gemini_close_def twilio_close_def emit_def Let_def)
  finally show ?thesis .
qed

lemma endCall_trace_live:
  "session s = Some sess \<Longrightarrow> g_ws (geminiClient s) \<noteq> None \<Longrightarrow> twilioWs s = OPEN \<Longrightarrow>
   trace (endCall reason s) = trace s @ [GeminiClose, TwilioClose 1000 ''Call ended'']"
  by (simp add: endCall_def gemini_close_def twilio_close_def emit_def Let_def)

lemma run_timers_none_due: "next_due now s = None \<Longrightarrow> run_timers now s = s"
  by (subst run_timers.simps) simp

lemma ended_timer_fields [simp]:
  "ended (s\<lparr>silenceTimer := x\<rparr>) = ended s"
  "ended (s\<lparr>maxDurationTimer := y\<rparr>) = ended s"
  "ended (s\<lparr>endCallTimers := z\<rparr>) = ended s"
  by (simp_all add: ended_def split: option.splits)

lemma untouched_refl [simp]: "untouched s s"
  by (simp add: untouched_def)

lemma untouched_trans: "untouched s s' \<Longrightarrow> untouched s' s'' \<Longrightarrow> untouched s s''"
  by (simp add: untouched_def)

lemma untouched_timer_fields [simp]:
  "untouched s (s'\<lparr>silenceTimer := x\<rparr>) = untouched s s'"
  "untouched s (s'\<lparr>maxDurationTimer := y\<rparr>) = untouched s s'"
  "untouched s (s'\<lparr>endCallTimers := z\<rparr>) = untouched s s'"
  by (simp_all add: untouched_def)

lemma endCall_untouched: "ended s \<Longrightarrow> untouched s (endCall reason s) \<and> ended (endCall reason s)"
  by (simp add: endCall_ended)

lemma fire_ended: "ended s \<Longrightarrow> untouched s (fire t s) \<and> ended (fire t s)"
  by (cases t) (simp_all add: fire_def endCall_ended)

text \<open>
  Within one call, and as long as no other call has connected the shared AI client since: a
  second \<open>endCall\<close> right after the first changes nothing, the first leaves the handler
  ended, and on an ended handler \<open>endCall\<close> and every timer leave the session, the
  registry, both connections and the calls issued on them as they were.
\<close>

lemma endCall_back_to_back:
  "endCall r2 (endCall r1 s) = endCall r1 s \<and>
   (session s \<noteq> None \<longrightarrow> ended (endCall r1 s)) \<and>
   (ended s \<longrightarrow> untouched s (endCall r2 s) \<and> (\<forall>t. untouched s (fire t s))) \<and>
   (session s \<noteq> None \<and> g_ws (geminiClient s) \<noteq> None \<and> twilioWs s = OPEN \<longrightarrow>
      trace (endCall r2 (endCall r1 s)) = trace s @ [GeminiClose, TwilioClose 1000 ''Call ended''])"
proof (intro conjI impI allI)
  show "endCall r2 (endCall r1 s) = endCall r1 s" by (rule endCall_idem)
  show "ended (endCall r1 s)" if "session s \<noteq> None" using that by (rule ended_endCall)
  show "untouched s (endCall r2 s)" if "ended s" using that by (simp add: endCall_untouched)
  show "untouched s (fire t s)" if "ended s" for t using that by (simp add: fire_ended)
  show "trace (endCall r2 (endCall r1 s)) = trace s @ [GeminiClose, TwilioClose 1000 ''Call ended'']"
    if "session s \<noteq> None \<and> g_ws (geminiClient s) \<noteq> None \<and> twilioWs s = OPEN"
    using that by (auto simp: endCall_idem endCall_trace_live)
qed

text \<open>
  \<open>endCall\<close> does not look at the active flag: on a session that has already ended it
  closes the AI client again whenever the client holds a socket. \<open>cleanup\<close>, which the close
  and error events of the telephony socket run, has the guard and leaves an ended session
  alone.
\<close>

lemma endCall_no_active_guard:
  "session s = Some sess \<Longrightarrow> \<not> isActive sess \<Longrightarrow> g_ws (geminiClient s) \<noteq> None \<Longrightarrow>
   twilioWs s \<noteq> OPEN \<Longrightarrow>
   trace (endCall reason s) = trace s @ [GeminiClose] \<and>
   geminiClient (endCall reason s) = \<lparr>g_ws = None, isSetupComplete = False\<rparr>"
  by (simp add: endCall_def gemini_close_def emit_def Let_def)

lemma cleanup_active_guard:
  "session s = Some sess \<Longrightarrow> \<not> isActive sess \<Longrightarrow> untouched s (cleanup s)"
  by (simp add: cleanup_def Let_def untouched_def)

text \<open>
  Claim C4, evaluated on the code. Two calls in one process. Call A reaches its fifth turn
  at 10000, which sets the timer for 12000; a stop event then ends call A (the first
  \<open>endCall\<close>: session inactive, AI link and telephony socket closed, registry empty). At
  11000 call B starts and connects the shared AI client. At 12000 the timer of call A fires
  and runs \<open>endCall\<close> a second time on the ended session of A: it is not a no-op, it issues
  another close on the AI client, and call B, still active and registered, is left without
  its AI link.
\<close>

theorem late_endCall_closes_other_call:
  "(let turn = \<lparr>turnComplete = True, toolCall = None, parts = None\<rparr>;
        startB = \<lparr>start_streamSid = ''MZ2'', start_callSid = ''CA2'', customParameters = None\<rparr>;
        p0 = (live_call 4, share (live_call 4) (initial ''unknown'' ''Puck''));
        p1 = in_first (handleResponse 10000 turn) p0;
        p2 = in_first handleStop p1;
        p3 = in_second (handleStart 11000 (Some startB) SetupComplete) p2;
        p4 = in_first (run_timers 12000) p3
    in ended (fst p2) \<and> endCallTimers (fst p2) = [(12000, ''completed'')] \<and>
       map_option isActive (session (fst p3)) = Some False \<and>
       map_option isActive (session (snd p3)) = Some True \<and>
       isConnected (geminiClient (snd p3)) \<and>
       trace (fst p4) = trace (fst p3) @ [GeminiClose] \<and>
       \<not> untouched (fst p3) (fst p4) \<and>
       map_option isActive (session (snd p4)) = Some True \<and>
       ''CA2'' \<in> activeSessions (snd p4) \<and>
       geminiClient (snd p4) = \<lparr>g_ws = None, isSetupComplete = False\<rparr> \<and>
       trace (snd p4) = [GeminiSendMessage openingMessage])"
proof -
  let ?turn = "\<lparr>turnComplete = True, toolCall = None, parts = None\<rparr>"
  let ?startB = "\<lparr>start_streamSid = ''MZ2'', start_callSid = ''CA2'', customParameters = None\<rparr>"
  let ?sessA = "\<lparr>callSid = ''CA1'', streamSid = ''MZ1'', phoneNumber = ''unknown'',
                 voiceId = ''Puck'', conversationLog = [], startTime = 0,
                 lastActivityTime = 5000, isActive = False, aiTurnCount = 5\<rparr>"
  let ?sessB = "\<lparr>callSid = ''CA2'', streamSid = ''MZ2'', phoneNumber = ''unknown'',
                 voiceId = ''Puck'', conversationLog = [], startTime = 11000,
                 lastActivityTime = 11000, isActive = True, aiTurnCount = 0\<rparr>"
  define a2 where "a2 = handleStop (handleResponse 10000 ?turn (live_call 4))"
  have a2: "a2 =
     \<lparr>h_phoneNumber = ''unknown'', h_voiceId = ''Puck'', session = Some ?sessA,
      silenceTimer = None, maxDurationTimer = None, endCallTimers = [(12000, ''completed'')],
      activeSessions = {}, twilioWs = CLOSING,
      geminiClient = \<lparr>g_ws = None, isSetupComplete = False\<rparr>,
      trace = [GeminiSendMessage openingMessage, GeminiClose, TwilioClose 1000 ''Call ended''],
      caught = []\<rparr>"
    by (simp add: a2_def live_call_def handleResponse_def on_turnComplete_def
        schedule_endCall_def handleStop_def endCall_def gemini_close_def twilio_close_def
        emit_def Let_def)
  define b2 where "b2 = share a2 (share (handleResponse 10000 ?turn (live_call 4))
      (share (live_call 4) (initial ''unknown'' ''Puck'')))"
  have b2: "b2 = initial ''unknown'' ''Puck''"
    by (simp add: b2_def a2 share_def initial_def)
  define b3 where "b3 = handleStart 11000 (Some ?startB) SetupComplete b2"
  have b3: "b3 =
     \<lparr>h_phoneNumber = ''unknown'', h_voiceId = ''Puck'', session = Some ?sessB,
      silenceTimer = None, maxDurationTimer = Some 311000, endCallTimers = [],
      activeSessions = {''CA2''}, twilioWs = OPEN,
      geminiClient = \<lparr>g_ws = Some OPEN, isSetupComplete = True\<rparr>,
      trace = [GeminiSendMessage openingMessage], caught = []\<rparr>"
    by (simp add: b3_def b2 handleStart_def initial_def Let_def gemini_send_def emit_def
        MAX_CALL_DURATION_def)
  define a3 where "a3 = share b3 a2"
  have a3: "a3 = a2\<lparr>geminiClient := \<lparr>g_ws = Some OPEN, isSetupComplete = True\<rparr>,
      activeSessions := {''CA2''}\<rparr>"
    by (simp add: a3_def share_def b3)
  have due: "next_due 12000 a3 = Some (EndCallTimer 0)"
    by (simp add: a3 a2 next_due_def pending_def)
  define a4 where "a4 = fire (EndCallTimer 0) a3"
  have a4: "a4 = a2\<lparr>endCallTimers := [],
      trace := [GeminiSendMessage openingMessage, GeminiClose, TwilioClose 1000 ''Call ended'',
                GeminiClose],
      activeSessions := {''CA2''}\<rparr>"
    by (simp add: a4_def a3 a2 fire_def endCall_def gemini_close_def emit_def Let_def)
  have "next_due 12000 a4 = None"
    by (simp add: a4 a2 next_due_def pending_def)
  then have r: "run_timers 12000 a3 = a4"
    by (subst run_timers.simps) (simp add: due a4_def [symmetric] run_timers_none_due)
  have p2: "in_first handleStop (in_first (handleResponse 10000 ?turn)
      (live_call 4, share (live_call 4) (initial ''unknown'' ''Puck''))) = (a2, b2)"
    by (simp add: in_first_def Let_def a2_def b2_def)
  have p3: "in_second (handleStart 11000 (Some ?startB) SetupComplete) (a2, b2) = (a3, b3)"
    by (simp add: in_second_def Let_def a3_def b3_def)
  have p4: "in_first (run_timers 12000) (a3, b3) = (a4, share a4 b3)"
    by (simp add: in_first_def Let_def r)
  show ?thesis
    unfolding Let_def p2 p3 p4
    by (simp add: a2 a3 a4 b3 share_def ended_def untouched_def isConnected_def)
qed

subsection \<open>Inbound media\<close>

lemma rms_exceeds_iff:
  assumes "samples \<noteq> []"
  shows "(calculateRMS samples > BARGE_IN_THRESHOLD)
     = (25000000 * int (length samples) < sumSquares samples)"
proof -
  have n: "0 < real (length samples)" using assms by simp
  have "sqrt (5000 * 5000) = \<bar>5000::real\<bar>" by (rule real_sqrt_abs2)
  then have "(5000::real) = sqrt (5000 * 5000)" by simp
  then have "(BARGE_IN_THRESHOLD < calculateRMS samples)
      = (sqrt (5000 * 5000) < sqrt (real_of_int (sumSquares samples) / real (length samples)))"
    using assms by (simp add: calculateRMS_def BARGE_IN_THRESHOLD_def)
  also have "\<dots> = (25000000 < real_of_int (sumSquares samples) / real (length samples))"
    by (simp only: real_sqrt_less_iff) simp
  also have "\<dots> = (25000000 * real (length samples) < real_of_int (sumSquares samples))"
    using n by (simp add: pos_less_divide_eq)
  also have "\<dots> = (real_of_int (25000000 * int (length samples)) < real_of_int (sumSquares samples))"
    by simp
  also have "\<dots> = (25000000 * int (length samples) < sumSquares samples)"
    by (simp only: of_int_less_iff)
  finally show ?thesis .
qed

lemma loud_frame: "calculateRMS (ulaw2pcm [0]) > BARGE_IN_THRESHOLD"
proof -
  have d: "ulaw2pcm [0] = [- 32124]"
    by (simp add: ulaw2pcm_def table_nth mulaw_table_entry_def to_int16_def BIAS_def Let_def)
  show ?thesis
    unfolding d by (simp add: rms_exceeds_iff sumSquares_def)
qed

text \<open>
  The guard of \<open>handleMedia\<close>: without a session, without a media part or on the outbound
  track the event is dropped before anything is computed.
\<close>

lemma handleMedia_guard:
  "session s = None \<or> media = None \<or> (\<exists>m. media = Some m \<and> media_track m \<noteq> inbound) \<Longrightarrow>
   handleMedia now media s = s"
  by (auto simp: handleMedia_def split: option.splits)

text \<open>
  Claim C5. When a session exists and a media event of the inbound track carries a frame
  whose computed RMS exceeds the threshold of 5000, \<open>handleMedia\<close> issues exactly one
  \<open>clear\<close> event to telephony, before it asks whether the AI link is ready and before any
  audio is forwarded, whatever the answer. If the link is not ready nothing follows the
  query: no audio is sent and no error is raised or logged. If it is ready, the upsampled
  frame is sent.
\<close>

theorem barge_in_clear_before_forwarding:
  "session s = Some sess \<Longrightarrow> media_track m = inbound \<Longrightarrow>
   calculateRMS (ulaw2pcm (payload m)) > BARGE_IN_THRESHOLD \<Longrightarrow>
   trace (handleMedia now (Some m) s) =
     trace s @ [TwilioSendClear (streamSid sess), GeminiIsConnected (isConnected (geminiClient s))]
       @ (if isConnected (geminiClient s)
          then [GeminiSendAudio (upsample3 (ulaw2pcm (payload m)))] else []) \<and>
   caught (handleMedia now (Some m) s) = caught s"
  by (simp add: handleMedia_def Let_def emit_def isConnected_def gemini_send_def resample_def
      buffer_of_def)

theorem barge_in_clear_before_forwarding_witness:
  "(let s = (live_call 0)\<lparr>geminiClient := \<lparr>g_ws = Some CLOSED, isSetupComplete = False\<rparr>\<rparr>;
        m = \<lparr>media_track = inbound, payload = [0]\<rparr>
    in session s \<noteq> None \<and> media_track m = inbound \<and>
       calculateRMS (ulaw2pcm (payload m)) > BARGE_IN_THRESHOLD \<and>
       \<not> isConnected (geminiClient s) \<and>
       trace (handleMedia 6000 (Some m) s)
         = [GeminiSendMessage openingMessage, TwilioSendClear ''MZ1'', GeminiIsConnected False] \<and>
       caught (handleMedia 6000 (Some m) s) = [])"
proof -
  let ?s = "(live_call 0)\<lparr>geminiClient := \<lparr>g_ws = Some CLOSED, isSetupComplete = False\<rparr>\<rparr>"
  let ?m = "\<lparr>media_track = inbound, payload = [0]\<rparr>"
  let ?sess = "\<lparr>callSid = ''CA1'', streamSid = ''MZ1'', phoneNumber = ''unknown'',
                voiceId = ''Puck'', conversationLog = [], startTime = 0,
                lastActivityTime = 5000, isActive = True, aiTurnCount = 0\<rparr>"
  have p: "session ?s = Some ?sess" "media_track ?m = inbound"
    "calculateRMS (ulaw2pcm (payload ?m)) > BARGE_IN_THRESHOLD"
    by (simp_all add: live_call_def loud_frame)
  have q: "\<not> isConnected (geminiClient ?s)" "trace ?s = [GeminiSendMessage openingMessage]"
    "caught ?s = []" "streamSid ?sess = ''MZ1''"
    by (simp_all add: live_call_def isConnected_def)
  note t = barge_in_clear_before_forwarding [OF p, of 6000]
  show ?thesis
    unfolding Let_def using t p q by simp
qed

subsection \<open>The receive loop and the turn limit\<close>

lemma same_call_refl [simp]: "same_call s s"
  by (simp add: same_call_def)

lemma same_call_trans: "same_call s s' \<Longrightarrow> same_call s' s'' \<Longrightarrow> same_call s s''"
  by (auto simp: same_call_def)

lemma same_call_emit: "\<not> is_close a \<Longrightarrow> same_call s (emit a s)"
  by (simp add: same_call_def emit_def)

lemma same_call_schedule: "same_call s (schedule_endCall t reason s)"
  by (auto simp: same_call_def schedule_endCall_def)

lemma same_call_on_text: "same_call s (on_text now t s)"
  by (cases "session s")
    (auto simp: same_call_def on_text_def schedule_endCall_def Let_def)

lemma same_call_gemini_send:
  "\<not> is_close a \<Longrightarrow> gemini_send a s = Inr s' \<Longrightarrow> same_call s s'"
  by (auto simp: gemini_send_def same_call_emit split: if_splits)

lemma gemini_send_Inl: "gemini_send a s = Inl e \<Longrightarrow> e = NotConnected"
  by (auto simp: gemini_send_def split: if_splits)

lemma same_call_run_tool_calls:
  "run_tool_calls now cs s = (e, s') \<Longrightarrow> same_call s s'"
proof (induction cs arbitrary: s)
  case Nil
  then show ?case by simp
next
  case (Cons c cs)
  obtain result where result: "executeTool (fc_name c) (fc_args c) = Inr result"
    by (cases "fc_name c = ''end_call''") (simp_all add: executeTool_def)
  let ?a = "GeminiSendToolResponse (fc_id c) (fc_name c) (success result) (message result)"
  show ?case
  proof (cases "gemini_send ?a s")
    case (Inl err)
    then show ?thesis using Cons.prems by (simp add: result)
  next
    case (Inr s1)
    then have 1: "same_call s s1" by (intro same_call_gemini_send [of ?a]) simp_all
    let ?s2 = "if action result = Some ''end_call''
               then schedule_endCall (now + 3000) ''ai_requested'' s1 else s1"
    have 2: "same_call s1 ?s2" by (simp add: same_call_schedule)
    have "run_tool_calls now cs ?s2 = (e, s')"
      using Cons.prems by (simp add: result Inr Let_def)
    then have "same_call ?s2 s'" by (rule Cons.IH)
    with 1 2 show ?thesis by (blast intro: same_call_trans)
  qed
qed

lemma same_call_on_audio: "on_audio d s = (e, s') \<Longrightarrow> same_call s s'"
  by (auto simp: on_audio_def Let_def same_call_emit split: sum.splits)

lemma same_call_run_parts:
  "run_parts now ps s = (e, s') \<Longrightarrow> same_call s s'"
proof (induction ps arbitrary: s)
  case Nil
  then show ?case by simp
next
  case (Cons p ps)
  define a where "a = (case inlineData p of
              None \<Rightarrow> (None, s)
            | Some d \<Rightarrow> if starts_with (mimeType d) ''audio/pcm'' then on_audio d s else (None, s))"
  obtain e1 s1 where a: "a = (e1, s1)" by (cases a)
  have 1: "same_call s s1"
    using a by (auto simp: a_def same_call_on_audio split: option.splits if_splits)
  show ?case
  proof (cases e1)
    case (Some err)
    then show ?thesis using Cons.prems 1 a by (simp add: a_def [symmetric])
  next
    case None
    let ?s2 = "case part_text p of None \<Rightarrow> s1 | Some t \<Rightarrow> if t = [] then s1 else on_text now t s1"
    have 2: "same_call s1 ?s2" by (simp add: same_call_on_text split: option.splits)
    have "run_parts now ps ?s2 = (e, s')"
      using Cons.prems a None by (simp add: a_def [symmetric])
    then have "same_call ?s2 s'" by (rule Cons.IH)
    with 1 2 show ?thesis by (blast intro: same_call_trans)
  qed
qed

lemma run_timers_ended: "ended s \<Longrightarrow> untouched s (run_timers t s) \<and> ended (run_timers t s)"
proof (induction t s rule: run_timers.induct)
  case (1 now s)
  show ?case
  proof (cases "next_due now s")
    case None
    then show ?thesis using "1.prems" by (simp add: run_timers_none_due)
  next
    case (Some tm)
    have f: "untouched s (fire tm s)" "ended (fire tm s)"
      using fire_ended [OF "1.prems", of tm] by simp_all
    have "untouched (fire tm s) (run_timers now (fire tm s)) \<and> ended (run_timers now (fire tm s))"
      using "1.IH" [OF Some f(2)] .
    moreover have "run_timers now s = run_timers now (fire tm s)"
      using Some by (subst run_timers.simps) simp
    ultimately show ?thesis using f(1) by (auto intro: untouched_trans)
  qed
qed

lemma earliest_None: "earliest xs = None \<longleftrightarrow> xs = []"
  by (induction xs) (auto split: option.splits)

lemma next_due_Some:
  assumes "(d, tm) \<in> set (pending s)" and "d \<le> now"
  shows "\<exists>tm'. next_due now s = Some tm'"
proof -
  have "(d, tm) \<in> set (filter (\<lambda>(d, t). d \<le> now) (pending s))" using assms by simp
  then have "filter (\<lambda>(d, t). d \<le> now) (pending s) \<noteq> []" by (metis empty_iff empty_set)
  then have "earliest (filter (\<lambda>(d, t). d \<le> now) (pending s)) \<noteq> None"
    by (simp add: earliest_None)
  then show ?thesis by (auto simp: next_due_def)
qed

lemma fire_live:
  assumes "session s = Some sess" and "g_ws (geminiClient s) \<noteq> None" and "twilioWs s = OPEN"
  shows "session (fire tm s) = Some (sess\<lparr>isActive := False\<rparr>)"
    and "activeSessions (fire tm s) = activeSessions s - {callSid sess}"
    and "trace (fire tm s) = trace s @ [GeminiClose, TwilioClose 1000 ''Call ended'']"
    and "ended (fire tm s)"
    and "caught (fire tm s) = caught s"
proof -
  have e: "\<And>r s'. session s' = Some sess \<Longrightarrow> g_ws (geminiClient s') \<noteq> None \<Longrightarrow> twilioWs s' = OPEN \<Longrightarrow>
      session (endCall r s') = Some (sess\<lparr>isActive := False\<rparr>) \<and>
      activeSessions (endCall r s') = activeSessions s' - {callSid sess} \<and>
      trace (endCall r s') = trace s' @ [GeminiClose, TwilioClose 1000 ''Call ended''] \<and>
      ended (endCall r s') \<and> caught (endCall r s') = caught s'"
    by (simp add: endCall_def gemini_close_def twilio_close_def emit_def Let_def ended_def)
  show "session (fire tm s) = Some (sess\<lparr>isActive := False\<rparr>)"
    using assms by (cases tm) (simp_all add: fire_def e)
  show "activeSessions (fire tm s) = activeSessions s - {callSid sess}"
    using assms by (cases tm) (simp_all add: fire_def e)
  show "trace (fire tm s) = trace s @ [GeminiClose, TwilioClose 1000 ''Call ended'']"
    using assms by (cases tm) (simp_all add: fire_def e)
  show "ended (fire tm s)"
    using assms by (cases tm) (simp_all add: fire_def e)
  show "caught (fire tm s) = caught s"
    using assms by (cases tm) (simp_all add: fire_def e)
qed

lemma run_timers_due:
  assumes "(d, tm) \<in> set (pending s)" and "d \<le> now"
    and "session s = Some sess" and "g_ws (geminiClient s) \<noteq> None" and "twilioWs s = OPEN"
  shows "session (run_timers now s) = Some (sess\<lparr>isActive := False\<rparr>)"
    and "activeSessions (run_timers now s) = activeSessions s - {callSid sess}"
    and "trace (run_timers now s) = trace s @ [GeminiClose, TwilioClose 1000 ''Call ended'']"
    and "ended (run_timers now s)"
    and "caught (run_timers now s) = caught s"
proof -
  obtain tm' where tm': "next_due now s = Some tm'"
    using next_due_Some [OF assms(1,2)] by blast
  have r: "run_timers now s = run_timers now (fire tm' s)"
    using tm' by (subst run_timers.simps) simp
  note f = fire_live [OF assms(3,4,5), of tm']
  have u: "untouched (fire tm' s) (run_timers now (fire tm' s))"
    and en: "ended (run_timers now (fire tm' s))"
    using run_timers_ended [OF f(4), of now] by simp_all
  show "session (run_timers now s) = Some (sess\<lparr>isActive := False\<rparr>)"
    using u f(1) by (simp add: r untouched_def)
  show "activeSessions (run_timers now s) = activeSessions s - {callSid sess}"
    using u f(2) by (simp add: r untouched_def)
  show "trace (run_timers now s) = trace s @ [GeminiClose, TwilioClose 1000 ''Call ended'']"
    using u f(3) by (simp add: r untouched_def)
  show "ended (run_timers now s)" using en by (simp add: r)
  show "caught (run_timers now s) = caught s"
    using u f(5) by (simp add: r untouched_def)
qed

lemma endCallTimer_pending:
  "(d, reason) \<in> set (endCallTimers s) \<Longrightarrow> \<exists>i. (d, EndCallTimer i) \<in> set (pending s)"
proof -
  assume "(d, reason) \<in> set (endCallTimers s)"
  then obtain i where i: "i < length (endCallTimers s)" "endCallTimers s ! i = (d, reason)"
    by (auto simp: in_set_conv_nth)
  then have "(d, EndCallTimer i)
      \<in> set (map (\<lambda>i. (fst (endCallTimers s ! i), EndCallTimer i)) [0..<length (endCallTimers s)])"
    by (auto simp: image_iff intro!: bexI [of _ i])
  then show ?thesis by (auto simp: pending_def)
qed

lemma on_turnComplete_fifth:
  assumes "session s = Some sess" and "aiTurnCount sess = 4"
  shows "on_turnComplete now s =
     s\<lparr>session := Some (sess\<lparr>aiTurnCount := 5\<rparr>),
       endCallTimers := endCallTimers s @ [(now + 2000, ''completed'')]\<rparr>"
  using assms by (simp add: on_turnComplete_def schedule_endCall_def Let_def)

lemma ends_after_timer:
  assumes "session x = Some sx" and "g_ws (geminiClient x) \<noteq> None" and "twilioWs x = OPEN"
    and "(d, reason) \<in> set (endCallTimers x)" and "d \<le> T"
  shows "session (run_timers T x) = Some (sx\<lparr>isActive := False\<rparr>)"
    and "activeSessions (run_timers T x) = activeSessions x - {callSid sx}"
    and "trace (run_timers T x) = trace x @ [GeminiClose, TwilioClose 1000 ''Call ended'']"
    and "ended (run_timers T x)"
proof -
  obtain i where i: "(d, EndCallTimer i) \<in> set (pending x)"
    using endCallTimer_pending [OF assms(4)] by blast
  note r = run_timers_due [OF i assms(5) assms(1,2,3)]
  show "session (run_timers T x) = Some (sx\<lparr>isActive := False\<rparr>)" by (rule r(1))
  show "activeSessions (run_timers T x) = activeSessions x - {callSid sx}" by (rule r(2))
  show "trace (run_timers T x) = trace x @ [GeminiClose, TwilioClose 1000 ''Call ended'']"
    by (rule r(3))
  show "ended (run_timers T x)" by (rule r(4))
qed

lemma ends_after_error:
  fixes e :: js_error
  assumes "session x = Some sx" and "g_ws (geminiClient x) \<noteq> None" and "twilioWs x = OPEN"
  defines "s1 \<equiv> endCall ''error'' (x\<lparr>caught := caught x @ [e]\<rparr>)"
  shows "session (run_timers T s1) = Some (sx\<lparr>isActive := False\<rparr>)"
    and "activeSessions (run_timers T s1) = activeSessions x - {callSid sx}"
    and "trace (run_timers T s1) = trace x @ [GeminiClose, TwilioClose 1000 ''Call ended'']"
    and "ended (run_timers T s1)"
    and "endCallTimers s1 = endCallTimers x"
proof -
  have e: "session s1 = Some (sx\<lparr>isActive := False\<rparr>)"
    "activeSessions s1 = activeSessions x - {callSid sx}"
    "trace s1 = trace x @ [GeminiClose, TwilioClose 1000 ''Call ended'']"
    "ended s1" "endCallTimers s1 = endCallTimers x"
    using assms(1,2,3)
    by (simp_all add: s1_def endCall_def gemini_close_def twilio_close_def emit_def Let_def
        ended_def)
  have u: "untouched s1 (run_timers T s1)" and en: "ended (run_timers T s1)"
    using run_timers_ended [OF e(4), of T] by simp_all
  show "session (run_timers T s1) = Some (sx\<lparr>isActive := False\<rparr>)"
    using u e(1) by (simp add: untouched_def)
  show "activeSessions (run_timers T s1) = activeSessions x - {callSid sx}"
    using u e(2) by (simp add: untouched_def)
  show "trace (run_timers T s1) = trace x @ [GeminiClose, TwilioClose 1000 ''Call ended'']"
    using u e(3) by (simp add: untouched_def)
  show "ended (run_timers T s1)" by (rule en)
  show "endCallTimers s1 = endCallTimers x" by (rule e(5))
qed

lemma handleResponse_cases:
  assumes "session s = Some sess" and "isActive sess" and "turnComplete r"
  shows "\<exists>x. same_call (on_turnComplete now s) x \<and>
     (handleResponse now r s = x \<or>
      (\<exists>e. handleResponse now r s = endCall ''error'' (x\<lparr>caught := caught x @ [e]\<rparr>)))"
proof -
  define s0 where "s0 = on_turnComplete now s"
  define a where "a = (case toolCall r of None \<Rightarrow> (None, s0)
                       | Some calls \<Rightarrow> run_tool_calls now calls s0)"
  obtain e1 sa where a: "a = (e1, sa)" by (cases a)
  have sa: "same_call s0 sa"
    using a by (auto simp: a_def same_call_run_tool_calls split: option.splits)
  define b where "b = (case parts r of None \<Rightarrow> (None, sa) | Some ps \<Rightarrow> run_parts now ps sa)"
  obtain e2 sb where b: "b = (e2, sb)" by (cases b)
  have sb: "same_call sa sb"
    using b by (auto simp: b_def same_call_run_parts split: option.splits)
  have hr: "handleResponse now r s =
      (case e1 of Some e \<Rightarrow> endCall ''error'' (sa\<lparr>caught := caught sa @ [e]\<rparr>)
       | None \<Rightarrow> (case e2 of Some e \<Rightarrow> endCall ''error'' (sb\<lparr>caught := caught sb @ [e]\<rparr>)
                   | None \<Rightarrow> sb))"
    using assms a b
    by (simp add: handleResponse_def Let_def s0_def [symmetric] a_def [symmetric]
        b_def [symmetric] split: option.splits)
  show ?thesis
  proof (cases e1)
    case (Some e)
    then show ?thesis using hr sa unfolding s0_def by auto
  next
    case None
    have "same_call s0 sb" using sa sb by (rule same_call_trans)
    then show ?thesis using hr None unfolding s0_def by (cases e2) auto
  qed
qed

lemma turn_limit_grace:
  assumes "session s = Some sess" and "isActive sess" and "aiTurnCount sess = 4"
    and "turnComplete r" and "toolCall r = None" and "parts r = None"
    and "endCallTimers s = []"
    and "\<forall>d. silenceTimer s = Some d \<longrightarrow> now + 2000 \<le> d"
    and "\<forall>d. maxDurationTimer s = Some d \<longrightarrow> now + 2000 \<le> d"
  shows "map_option isActive (session (handleResponse now r s)) = Some True"
    and "map_option aiTurnCount (session (handleResponse now r s)) = Some 5"
    and "\<forall>t < now + 2000. run_timers t (handleResponse now r s) = handleResponse now r s"
proof -
  have hr: "handleResponse now r s =
     s\<lparr>session := Some (sess\<lparr>aiTurnCount := 5\<rparr>),
       endCallTimers := [(now + 2000, ''completed'')]\<rparr>"
    using assms(1-7)
    by (simp add: handleResponse_def on_turnComplete_fifth [OF assms(1,3)] Let_def)
  show "map_option isActive (session (handleResponse now r s)) = Some True"
    using assms(2) by (simp add: hr)
  show "map_option aiTurnCount (session (handleResponse now r s)) = Some 5"
    by (simp add: hr)
  show "\<forall>t < now + 2000. run_timers t (handleResponse now r s) = handleResponse now r s"
  proof (intro allI impI)
    fix t assume t: "t < now + 2000"
    have "filter (\<lambda>(d, tm). d \<le> t) (pending (handleResponse now r s)) = []"
      using assms(8,9) t
      by (cases "silenceTimer s"; cases "maxDurationTimer s") (auto simp: hr pending_def)
    then have "next_due t (handleResponse now r s) = None" by (simp add: next_due_def)
    then show "run_timers t (handleResponse now r s) = handleResponse now r s"
      by (rule run_timers_none_due)
  qed
qed

text \<open>
  Claim C2. When a turn-complete response takes the count of completed AI turns of an
  active, connected session from 4 to 5, the receive loop sets a timer that calls \<open>endCall\<close>
  with the reason \<open>completed\<close> (the reason that the turn-limit branch passes) 2000 ms later.
  When that time is reached the session is inactive and its call identifier is out of the
  registry; from the response to that moment each connection has been closed exactly once,
  and timers that fire afterwards change nothing. If the response is a bare turn-complete
  signal and no other timer is due in between, the session stays active, with 5 turns
  counted, at every moment before the 2000 ms have elapsed.
\<close>

theorem turn_limit_ends_call_once:
  "session s = Some sess \<Longrightarrow> isActive sess \<Longrightarrow> aiTurnCount sess = 4 \<Longrightarrow> turnComplete r \<Longrightarrow>
   isConnected (geminiClient s) \<Longrightarrow> twilioWs s = OPEN \<Longrightarrow>
   (let s1 = handleResponse now r s; s2 = run_timers (now + 2000) s1 in
      (now + 2000, ''completed'') \<in> set (endCallTimers s1) \<and>
      map_option isActive (session s2) = Some False \<and>
      callSid sess \<notin> activeSessions s2 \<and>
      ended s2 \<and>
      filter is_close (trace s2)
        = filter is_close (trace s) @ [GeminiClose, TwilioClose 1000 ''Call ended''] \<and>
      (\<forall>t. untouched s2 (run_timers t s2)) \<and>
      (toolCall r = None \<and> parts r = None \<and> endCallTimers s = [] \<and>
       (\<forall>d. silenceTimer s = Some d \<longrightarrow> now + 2000 \<le> d) \<and>
       (\<forall>d. maxDurationTimer s = Some d \<longrightarrow> now + 2000 \<le> d) \<longrightarrow>
         map_option isActive (session s1) = Some True \<and>
         map_option aiTurnCount (session s1) = Some 5 \<and>
         (\<forall>t < now + 2000. run_timers t s1 = s1)))"
proof -
  assume sess: "session s = Some sess" and act: "isActive sess" and four: "aiTurnCount sess = 4"
    and tc: "turnComplete r" and conn: "isConnected (geminiClient s)" and tw: "twilioWs s = OPEN"
  define s0 where "s0 = on_turnComplete now s"
  have s0: "s0 = s\<lparr>session := Some (sess\<lparr>aiTurnCount := 5\<rparr>),
       endCallTimers := endCallTimers s @ [(now + 2000, ''completed'')]\<rparr>"
    unfolding s0_def by (rule on_turnComplete_fifth [OF sess four])
  obtain x where x: "same_call s0 x"
    and hr: "handleResponse now r s = x \<or>
      (\<exists>e. handleResponse now r s = endCall ''error'' (x\<lparr>caught := caught x @ [e]\<rparr>))"
    using handleResponse_cases [OF sess act tc, of now] unfolding s0_def by blast
  from x obtain sx where sx: "session x = Some sx" and cs: "callSid sx = callSid sess"
    by (auto simp: same_call_def s0)
  have gx: "g_ws (geminiClient x) \<noteq> None" using x conn by (simp add: same_call_def s0 isConnected_def)
  have tx: "twilioWs x = OPEN" using x tw by (simp add: same_call_def s0)
  have cl: "filter is_close (trace x) = filter is_close (trace s)"
    using x by (simp add: same_call_def s0)
  have tm: "(now + 2000, ''completed'') \<in> set (endCallTimers x)"
    using x by (auto simp: same_call_def s0)
  define s1 where "s1 = handleResponse now r s"
  define s2 where "s2 = run_timers (now + 2000) s1"
  have main: "(now + 2000, ''completed'') \<in> set (endCallTimers s1) \<and>
      session s2 = Some (sx\<lparr>isActive := False\<rparr>) \<and>
      activeSessions s2 = activeSessions x - {callSid sx} \<and>
      trace s2 = trace x @ [GeminiClose, TwilioClose 1000 ''Call ended''] \<and> ended s2"
    using hr
  proof
    assume "handleResponse now r s = x"
    then have "s1 = x" by (simp add: s1_def)
    then show ?thesis
      using ends_after_timer [OF sx gx tx tm] tm by (simp add: s2_def)
  next
    assume "\<exists>e. handleResponse now r s = endCall ''error'' (x\<lparr>caught := caught x @ [e]\<rparr>)"
    then obtain e where "s1 = endCall ''error'' (x\<lparr>caught := caught x @ [e]\<rparr>)"
      by (auto simp: s1_def)
    then show ?thesis
      using ends_after_error [OF sx gx tx] tm by (simp add: s2_def)
  qed
  have later: "\<forall>t. untouched s2 (run_timers t s2)"
    using main run_timers_ended [of s2] by blast
  have grace: "toolCall r = None \<and> parts r = None \<and> endCallTimers s = [] \<and>
       (\<forall>d. silenceTimer s = Some d \<longrightarrow> now + 2000 \<le> d) \<and>
       (\<forall>d. maxDurationTimer s = Some d \<longrightarrow> now + 2000 \<le> d) \<longrightarrow>
         map_option isActive (session s1) = Some True \<and>
         map_option aiTurnCount (session s1) = Some 5 \<and>
         (\<forall>t < now + 2000. run_timers t s1 = s1)"
    unfolding s1_def using turn_limit_grace [OF sess act four tc] by blast
  show ?thesis
    unfolding Let_def s1_def [symmetric] s2_def [symmetric]
    using main later grace cs cl by simp
qed

theorem turn_limit_ends_call_once_witness:
  "session (live_call 4) \<noteq> None \<and> isConnected (geminiClient (live_call 4)) \<and>
   twilioWs (live_call 4) = OPEN \<and>
   (let r = \<lparr>turnComplete = True, toolCall = None, parts = None\<rparr>;
        s1 = handleResponse 10000 r (live_call 4);
        s2 = run_timers 12000 s1
    in (12000, ''completed'') \<in> set (endCallTimers s1) \<and>
       run_timers 11999 s1 = s1 \<and>
       map_option isActive (session s2) = Some False \<and>
       ''CA1'' \<notin> activeSessions s2 \<and>
       filter is_close (trace s2) = [GeminiClose, TwilioClose 1000 ''Call ended''])"
proof -
  let ?sess = "\<lparr>callSid = ''CA1'', streamSid = ''MZ1'', phoneNumber = ''unknown'',
                voiceId = ''Puck'', conversationLog = [], startTime = 0,
                lastActivityTime = 5000, isActive = True, aiTurnCount = 4\<rparr>"
  let ?r = "\<lparr>turnComplete = True, toolCall = None, parts = None\<rparr>"
  have p: "session (live_call 4) = Some ?sess" "isActive ?sess" "aiTurnCount ?sess = 4"
    "turnComplete ?r" "isConnected (geminiClient (live_call 4))" "twilioWs (live_call 4) = OPEN"
    by (simp_all add: live_call_def isConnected_def)
  have g: "toolCall ?r = None \<and> parts ?r = None \<and> endCallTimers (live_call 4) = [] \<and>
       (\<forall>d. silenceTimer (live_call 4) = Some d \<longrightarrow> 10000 + 2000 \<le> d) \<and>
       (\<forall>d. maxDurationTimer (live_call 4) = Some d \<longrightarrow> 10000 + 2000 \<le> d)"
    by (simp add: live_call_def)
  note t = turn_limit_ends_call_once [OF p, of 10000, unfolded Let_def]
  have c: "callSid ?sess = ''CA1''" "filter is_close (trace (live_call 4)) = []"
    by (simp_all add: live_call_def)
  have n: "(11999::nat) < 10000 + 2000" "(10000::nat) + 2000 = 12000" by simp_all
  from t g n(1) have "run_timers 11999 (handleResponse 10000 ?r (live_call 4))
      = handleResponse 10000 ?r (live_call 4)"
    by blast
  with t p c show ?thesis
    unfolding Let_def n(2) by simp
qed

text \<open>
  The scenario of six turn-complete signals: the fifth (at 5000) sets the timer for 7000, the
  sixth (at 5500) a second one for 7500; the call ends at 7000, and the timer that fires at
  7500 finds it ended and changes nothing.
\<close>

lemma six_turn_completes:
  "(let r = \<lparr>turnComplete = True, toolCall = None, parts = None\<rparr>;
        s5 = handleResponse 5000 r (handleResponse 4000 r (handleResponse 3000 r
               (handleResponse 2000 r (handleResponse 1000 r (live_call 0)))));
        s6 = handleResponse 5500 r s5;
        s7 = run_timers 7000 s6;
        s8 = run_timers 7500 s7
    in endCallTimers s5 = [(7000, ''completed'')] \<and>
       endCallTimers s6 = [(7000, ''completed''), (7500, ''completed'')] \<and>
       run_timers 6999 s6 = s6 \<and>
       ended s7 \<and> endCallTimers s7 = [(7500, ''completed'')] \<and>
       trace s7 = [GeminiSendMessage openingMessage, GeminiClose, TwilioClose 1000 ''Call ended''] \<and>
       trace s8 = trace s7 \<and> endCallTimers s8 = [])"
proof -
  let ?r = "\<lparr>turnComplete = True, toolCall = None, parts = None\<rparr>"
  have step: "\<And>n t. n < 4 \<Longrightarrow> handleResponse t ?r (live_call n) = live_call (Suc n)"
    by (simp add: live_call_def handleResponse_def on_turnComplete_def Let_def)
  have s4: "handleResponse 4000 ?r (handleResponse 3000 ?r
               (handleResponse 2000 ?r (handleResponse 1000 ?r (live_call 0)))) = live_call 4"
    by (simp add: step eval_nat_numeral)
  define s5 where "s5 = (live_call 5)\<lparr>endCallTimers := [(7000, ''completed'')]\<rparr>"
  define s6 where
    "s6 = (live_call 6)\<lparr>endCallTimers := [(7000, ''completed''), (7500, ''completed'')]\<rparr>"
  have h5: "handleResponse 5000 ?r (live_call 4) = s5"
    by (simp add: s5_def live_call_def handleResponse_def on_turnComplete_def Let_def
        schedule_endCall_def)
  have h6: "handleResponse 5500 ?r s5 = s6"
    by (simp add: s5_def s6_def live_call_def handleResponse_def on_turnComplete_def Let_def
        schedule_endCall_def)
  have n1: "next_due 6999 s6 = None"
    by (simp add: s6_def live_call_def next_due_def pending_def)
  have n2: "next_due 7000 s6 = Some (EndCallTimer 0)"
    by (simp add: s6_def live_call_def next_due_def pending_def)
  define s7 where "s7 = fire (EndCallTimer 0) s6"
  have s7: "ended s7" "endCallTimers s7 = [(7500, ''completed'')]" "silenceTimer s7 = None"
    "maxDurationTimer s7 = None"
    "trace s7 = [GeminiSendMessage openingMessage, GeminiClose, TwilioClose 1000 ''Call ended'']"
    by (simp_all add: s7_def s6_def live_call_def fire_def endCall_def gemini_close_def
        twilio_close_def emit_def ended_def Let_def)
  have n3: "next_due 7000 s7 = None"
    by (simp add: next_due_def pending_def s7)
  have r7: "run_timers 7000 s6 = s7"
    by (subst run_timers.simps) (simp add: n2 s7_def [symmetric] run_timers_none_due [OF n3])
  have u: "untouched s7 (run_timers 7500 s7)"
    using run_timers_ended [OF s7(1)] by blast
  have n4: "next_due 7500 s7 = Some (EndCallTimer 0)"
    by (simp add: next_due_def pending_def s7)
  have f8: "endCallTimers (fire (EndCallTimer 0) s7) = []"
    "silenceTimer (fire (EndCallTimer 0) s7) = None"
    "maxDurationTimer (fire (EndCallTimer 0) s7) = None"
    using s7(1) by (simp_all add: fire_def endCall_ended s7)
  have n5: "next_due 7500 (fire (EndCallTimer 0) s7) = None"
    by (simp add: next_due_def pending_def f8)
  have r8: "run_timers 7500 s7 = fire (EndCallTimer 0) s7"
    by (subst run_timers.simps) (simp add: n4 run_timers_none_due [OF n5])
  show ?thesis
    unfolding Let_def s4 h5 h6 r7
    using s7 u f8(1) run_timers_none_due [OF n1]
    by (simp add: s5_def s6_def r8 [symmetric] untouched_def)
qed

subsection \<open>The silence timer\<close>

lemma handleStart_silenceTimer:
  "silenceTimer (handleStart now start outcome s) = silenceTimer s"
  by (simp add: handleStart_def Let_def twilio_close_def emit_def gemini_send_def
      split: option.splits connect_outcome.splits)

text \<open>
  The path that does set the silence timer: 15 seconds after an inbound media event, with no
  further event, the call has ended and both connections have been closed.
\<close>

lemma silence_timeout_after_media:
  fixes now :: nat
  assumes "session s = Some sess" and "media_track m = inbound"
    and "g_ws (geminiClient s) \<noteq> None" and "twilioWs s = OPEN"
  defines "s1 \<equiv> handleMedia now (Some m) s"
  shows "silenceTimer s1 = Some (now + 15000)"
    and "ended (run_timers (now + 15000) s1)"
    and "trace (run_timers (now + 15000) s1)
           = trace s1 @ [GeminiClose, TwilioClose 1000 ''Call ended'']"
    and "callSid sess \<notin> activeSessions (run_timers (now + 15000) s1)"
proof -
  have f: "silenceTimer s1 = Some (now + 15000)"
    "session s1 = Some (sess\<lparr>lastActivityTime := now\<rparr>)"
    "g_ws (geminiClient s1) \<noteq> None" "twilioWs s1 = OPEN"
    using assms(1-4)
    by (simp_all add: s1_def handleMedia_def Let_def emit_def gemini_send_def resample_def
        SILENCE_TIMEOUT_def isConnected_def)
  have p: "(now + 15000, SilenceTimer) \<in> set (pending s1)"
    by (simp add: pending_def f(1))
  note r = run_timers_due [OF p order_refl f(2,3,4)]
  show "silenceTimer s1 = Some (now + 15000)" by (rule f(1))
  show "ended (run_timers (now + 15000) s1)" by (rule r(4))
  show "trace (run_timers (now + 15000) s1)
           = trace s1 @ [GeminiClose, TwilioClose 1000 ''Call ended'']" by (rule r(3))
  show "callSid sess \<notin> activeSessions (run_timers (now + 15000) s1)"
    by (simp add: r(2))
qed

text \<open>
  Claim C1, evaluated on the code. After a start event at time 0 with a successful handshake
  and no media event, no silence timer is set (only \<open>handleMedia\<close> sets one, and
  \<open>handleStart\<close> leaves the timer as it finds it). When 16 seconds have elapsed no timer is
  due: the session is still active and registered, both connections are open and nothing
  has been closed.
\<close>

theorem start_without_media_not_ended:
  "(let s1 = handleStart 0
               (Some \<lparr>start_streamSid = ''MZ1'', start_callSid = ''CA1'', customParameters = None\<rparr>)
               SetupComplete (initial ''unknown'' ''Puck'');
        s2 = run_timers 16000 s1
    in silenceTimer s1 = None \<and> s2 = s1 \<and>
       map_option isActive (session s2) = Some True \<and> ''CA1'' \<in> activeSessions s2 \<and>
       twilioWs s2 = OPEN \<and> isConnected (geminiClient s2) \<and>
       trace s2 = [GeminiSendMessage openingMessage])"
proof -
  let ?s1 = "handleStart 0
               (Some \<lparr>start_streamSid = ''MZ1'', start_callSid = ''CA1'', customParameters = None\<rparr>)
               SetupComplete (initial ''unknown'' ''Puck'')"
  have s1: "?s1 =
     \<lparr>h_phoneNumber = ''unknown'', h_voiceId = ''Puck'',
      session = Some \<lparr>callSid = ''CA1'', streamSid = ''MZ1'', phoneNumber = ''unknown'',
                      voiceId = ''Puck'', conversationLog = [], startTime = 0,
                      lastActivityTime = 0, isActive = True, aiTurnCount = 0\<rparr>,
      silenceTimer = None, maxDurationTimer = Some 300000, endCallTimers = [],
      activeSessions = {''CA1''}, twilioWs = OPEN,
      geminiClient = \<lparr>g_ws = Some OPEN, isSetupComplete = True\<rparr>,
      trace = [GeminiSendMessage openingMessage], caught = []\<rparr>"
    by (simp add: handleStart_def initial_def Let_def gemini_send_def emit_def
        MAX_CALL_DURATION_def)
  have "next_due 16000 ?s1 = None"
    unfolding s1 by (simp add: next_due_def pending_def)
  then have "run_timers 16000 ?s1 = ?s1" by (rule run_timers_none_due)
  then show ?thesis
    unfolding Let_def by (simp add: s1 isConnected_def)
qed

end
